theory Spec2Isabelle
  imports Complex_Main "HOL-Library.Multiset" "HOL-Library.Sublist" "HOL-Library.AList"
    "HOL-Library.Product_Lexorder"
begin

section \<open>JavaScript values\<close>

text \<open>
  The dashboard is TypeScript; its numbers are the doubles of IEEE 754. A number is
  not-a-number, one of the two infinities, or finite, and a finite double is modelled by
  the rational it denotes. The two zeros are one value: the modelled code never divides
  by a zero and has no other way to tell them apart.
\<close>

datatype number = NaN | Fin rat | PInf | NInf

abbreviation IntNum :: "int \<Rightarrow> number" where
  "IntNum k \<equiv> Fin (of_int k)"

text \<open>
  Rounding a rational to the nearest double, a tie going to the even significand. A
  double has 53 binary digits: in the binade \<open>2^e \<le> \<bar>x\<bar> < 2^(e+1)\<close> the doubles are
  the multiples of \<open>2^(e-52)\<close>, and below \<open>2^-1022\<close> the multiples of \<open>2^-1074\<close>.
  A result of magnitude \<open>2^1024\<close> or more is an infinity.
\<close>

function bitLength :: "int \<Rightarrow> int" where
  "bitLength n = (if n \<le> 0 then 0 else 1 + bitLength (n div 2))"
  by pat_completeness auto
termination
  by (relation "measure nat") auto

definition binade :: "rat \<Rightarrow> int" where
  "binade x =
     (if 1 \<le> \<bar>x\<bar> then bitLength \<lfloor>\<bar>x\<bar>\<rfloor> - 1
      else - bitLength (\<lceil>1 / \<bar>x\<bar>\<rceil> - 1))"

definition roundHalfEven :: "rat \<Rightarrow> int" where
  "roundHalfEven y =
     (let r = \<lfloor>y\<rfloor>; d = y - of_int r
      in if d < 1 / 2 then r else if 1 / 2 < d then r + 1
         else if even r then r else r + 1)"

definition toDouble :: "rat \<Rightarrow> number" where
  "toDouble x =
     (if x = 0 then Fin 0
      else let c = max (binade x - 52) (- 1074);
               v = of_int (roundHalfEven (x / 2 powi c)) * 2 powi c
           in if 2 powi 1024 \<le> \<bar>v\<bar> then (if 0 < x then PInf else NInf) else Fin v)"

text \<open>\<^verbatim>\<open>a + b\<close>\<close>

fun plus_num :: "number \<Rightarrow> number \<Rightarrow> number" where
  "plus_num (Fin a) (Fin b) = toDouble (a + b)"
| "plus_num NaN _ = NaN"
| "plus_num _ NaN = NaN"
| "plus_num PInf NInf = NaN"
| "plus_num NInf PInf = NaN"
| "plus_num PInf _ = PInf"
| "plus_num _ PInf = PInf"
| "plus_num NInf _ = NInf"
| "plus_num _ NInf = NInf"

text \<open>
  \<^verbatim>\<open>a - b\<close>, which the code uses in the comparator of a sort only, where its sign
  is what counts. The difference of two doubles is rounded as a sum is, and rounding
  keeps the sign of a difference of doubles (lemma \<open>minus_num_sign\<close> below); the
  model has the exact difference.
\<close>

fun minus_num :: "number \<Rightarrow> number \<Rightarrow> number" where
  "minus_num (Fin a) (Fin b) = Fin (a - b)"
| "minus_num NaN _ = NaN"
| "minus_num _ NaN = NaN"
| "minus_num PInf PInf = NaN"
| "minus_num NInf NInf = NaN"
| "minus_num PInf _ = PInf"
| "minus_num _ NInf = PInf"
| "minus_num NInf _ = NInf"
| "minus_num _ PInf = NInf"

text \<open>
  \<^verbatim>\<open>a / b\<close>. A zero divisor is the positive zero; the modelled code divides by a
  length, behind a check that it is not zero.
\<close>

fun div_num :: "number \<Rightarrow> number \<Rightarrow> number" where
  "div_num (Fin a) (Fin b) =
     (if b = 0 then (if a = 0 then NaN else if 0 < a then PInf else NInf)
      else toDouble (a / b))"
| "div_num NaN _ = NaN"
| "div_num _ NaN = NaN"
| "div_num (Fin a) _ = Fin 0"
| "div_num PInf (Fin b) = (if 0 \<le> b then PInf else NInf)"
| "div_num NInf (Fin b) = (if 0 \<le> b then NInf else PInf)"
| "div_num _ _ = NaN"

text \<open>\<^verbatim>\<open>a <= b\<close>: false as soon as one side is not a number.\<close>

fun le_num :: "number \<Rightarrow> number \<Rightarrow> bool" where
  "le_num NaN _ = False"
| "le_num _ NaN = False"
| "le_num (Fin a) (Fin b) = (a \<le> b)"
| "le_num NInf _ = True"
| "le_num _ PInf = True"
| "le_num _ _ = False"

text \<open>
  \<^verbatim>\<open>Math.round\<close>: the nearest integer, a tie going up. On a double the result is
  a double again, so nothing is rounded twice.
\<close>

fun Math_round :: "number \<Rightarrow> number" where
  "Math_round (Fin a) = IntNum \<lfloor>a + 1 / 2\<rfloor>"
| "Math_round NaN = NaN"
| "Math_round PInf = PInf"
| "Math_round NInf = NInf"

text \<open>
  The place of a number in the descending order of the numbers: the positive infinity
  first, the finite numbers by their negated value, the negative infinity last.
\<close>

fun descKey :: "number \<Rightarrow> int \<times> rat" where
  "descKey PInf = (0, 0)"
| "descKey (Fin v) = (1, - v)"
| "descKey NInf = (2, 0)"
| "descKey NaN = (3, 0)"

text \<open>
  An object literal \<^verbatim>\<open>{}\<close> used as a dictionary is an association list in insertion
  order. Reading a key that the object does not own falls through to
  \<^verbatim>\<open>Object.prototype\<close>; assigning a primitive value to \<^verbatim>\<open>__proto__\<close> runs the
  inherited setter, which ignores it.
\<close>

type_synonym 'v object = "(string \<times> 'v) list"

datatype 'v property = Own 'v | Inherited | Missing

definition objectPrototypeKeys :: "string list" where
  "objectPrototypeKeys =
     [''constructor'', ''__defineGetter__'', ''__defineSetter__'', ''hasOwnProperty'',
      ''__lookupGetter__'', ''__lookupSetter__'', ''isPrototypeOf'',
      ''propertyIsEnumerable'', ''toString'', ''valueOf'', ''__proto__'',
      ''toLocaleString'']"

definition getProp :: "'v object \<Rightarrow> string \<Rightarrow> 'v property" where
  "getProp obj k =
     (case map_of obj k of
        Some v \<Rightarrow> Own v
      | None \<Rightarrow> if k \<in> set objectPrototypeKeys then Inherited else Missing)"

definition setProp :: "'v object \<Rightarrow> string \<Rightarrow> 'v \<Rightarrow> 'v object" where
  "setProp obj k v = (if k = ''__proto__'' then obj else AList.update k v obj)"

section \<open>types.ts: the category colours\<close>

definition CategoryColors :: "string object" where
  "CategoryColors =
     [(''Good'', ''#4ade80''),
      (''Moderate'', ''#facc15''),
      (''Unhealthy for Sensitive Groups'', ''#fb923c''),
      (''Unhealthy'', ''#f87171''),
      (''Very Unhealthy'', ''#a78bfa''),
      (''Hazardous'', ''#881337'')]"

section \<open>utils.ts: colour and health text of an AQI\<close>

definition getColorForAQI :: "number \<Rightarrow> string property" where
  "getColorForAQI aqi =
     (if le_num aqi (IntNum 50) then getProp CategoryColors ''Good''
      else if le_num aqi (IntNum 100) then getProp CategoryColors ''Moderate''
      else if le_num aqi (IntNum 150)
        then getProp CategoryColors ''Unhealthy for Sensitive Groups''
      else if le_num aqi (IntNum 200) then getProp CategoryColors ''Unhealthy''
      else if le_num aqi (IntNum 300) then getProp CategoryColors ''Very Unhealthy''
      else getProp CategoryColors ''Hazardous'')"

record health =
  impact :: string
  advice :: string

definition getHealthImplications :: "number \<Rightarrow> health" where
  "getHealthImplications aqi =
     (if le_num aqi (IntNum 50) then
        \<lparr>impact = ''Air quality is satisfactory, and air pollution poses little or no risk.'',
         advice = ''It's a great day to be active outside.''\<rparr>
      else if le_num aqi (IntNum 100) then
        \<lparr>impact = ''Air quality is acceptable. However, there may be a risk for some people, particularly those who are unusually sensitive to air pollution.'',
         advice = ''Unusually sensitive people should consider reducing prolonged or heavy exertion.''\<rparr>
      else if le_num aqi (IntNum 150) then
        \<lparr>impact = ''Members of sensitive groups may experience health effects. The general public is less likely to be affected.'',
         advice = ''People with heart or lung disease, older adults, and children should reduce prolonged or heavy exertion.''\<rparr>
      else if le_num aqi (IntNum 200) then
        \<lparr>impact = ''Everyone may begin to experience health effects; members of sensitive groups may experience more serious health effects.'',
         advice = ''People with heart or lung disease, older adults, and children should avoid prolonged or heavy exertion. Everyone else should reduce prolonged or heavy exertion.''\<rparr>
      else if le_num aqi (IntNum 300) then
        \<lparr>impact = ''Health warnings of emergency conditions. The entire population is more likely to be affected.'',
         advice = ''People with heart or lung disease, older adults, and children should avoid all physical activity outdoors. Everyone else should avoid prolonged or heavy exertion.''\<rparr>
      else
        \<lparr>impact = ''Health alert: everyone may experience more serious health effects.'',
         advice = ''Everyone should avoid all physical activity outdoors.''\<rparr>)"

text \<open>
  The bucket a result stands for: the position of the colour among the colours of
  \<open>CategoryColors\<close>, and the position of the health text among the six texts of
  \<open>getHealthImplications\<close>, both in the order of the source.
\<close>

fun indexOf :: "'a \<Rightarrow> 'a list \<Rightarrow> nat option" where
  "indexOf x [] = None"
| "indexOf x (y # ys) = (if x = y then Some 0 else map_option Suc (indexOf x ys))"

definition healthBuckets :: "health list" where
  "healthBuckets =
     [getHealthImplications (IntNum 50), getHealthImplications (IntNum 100),
      getHealthImplications (IntNum 150), getHealthImplications (IntNum 200),
      getHealthImplications (IntNum 300), getHealthImplications (IntNum 301)]"

definition colorBucket :: "number \<Rightarrow> nat option" where
  "colorBucket aqi =
     (case getColorForAQI aqi of
        Own c \<Rightarrow> indexOf c (map snd CategoryColors)
      | Inherited \<Rightarrow> None
      | Missing \<Rightarrow> None)"

definition healthBucket :: "number \<Rightarrow> nat option" where
  "healthBucket aqi = indexOf (getHealthImplications aqi) healthBuckets"

section \<open>Strings\<close>

text \<open>
  A string is the list of its code units; the model has the units below 256. Of the
  characters that \<^verbatim>\<open>trim\<close> and \<^verbatim>\<open>parseInt\<close> skip as white space (the
  white space and line terminators of ECMAScript) these are tab, line feed, vertical tab,
  form feed, carriage return, space and the no-break space.
\<close>

definition isWhiteSpace :: "char \<Rightarrow> bool" where
  "isWhiteSpace c =
     (c \<in> set [CHR 0x09, CHR 0x0A, CHR 0x0B, CHR 0x0C, CHR 0x0D, CHR 0x20, CHR 0xA0])"

definition trimStart :: "string \<Rightarrow> string" where
  "trimStart s = dropWhile isWhiteSpace s"

definition trimEnd :: "string \<Rightarrow> string" where
  "trimEnd s = rev (dropWhile isWhiteSpace (rev s))"

definition trim :: "string \<Rightarrow> string" where
  "trim s = trimEnd (trimStart s)"

text \<open>
  \<^verbatim>\<open>s.split(sep)\<close> for a separator of one character: the pieces between the
  separators, one more than there are separators, so never the empty array.
\<close>

fun str_split :: "char \<Rightarrow> string \<Rightarrow> string list" where
  "str_split sep [] = [[]]"
| "str_split sep (c # cs) =
     (if c = sep then [] # str_split sep cs
      else (case str_split sep cs of
              [] \<Rightarrow> [[c]]
            | w # ws \<Rightarrow> (c # w) # ws))"

text \<open>\<^verbatim>\<open>s.includes(sub)\<close>: \<open>sub\<close> occurs in \<open>s\<close> as a contiguous run.\<close>

fun str_includes :: "string \<Rightarrow> string \<Rightarrow> bool" where
  "str_includes [] sub = (sub = [])"
| "str_includes (c # cs) sub = (prefix sub (c # cs) \<or> str_includes cs sub)"

text \<open>
  \<^verbatim>\<open>parseInt(s, 10)\<close>: skip leading white space, read one optional sign, then the
  longest run of decimal digits; not-a-number when that run is empty. What follows the
  digits is ignored. The result is the double nearest to the signed integer of the run
  (for a run of more than 20 significant digits an engine may read the digits after the
  twentieth as zeros; the model reads them as they are).
\<close>

definition isDigit :: "char \<Rightarrow> bool" where
  "isDigit c = (48 \<le> (of_char c :: nat) \<and> (of_char c :: nat) \<le> 57)"

definition digitValue :: "char \<Rightarrow> int" where
  "digitValue c = int (of_char c) - 48"

definition decimalValue :: "string \<Rightarrow> int" where
  "decimalValue s = foldl (\<lambda>n c. 10 * n + digitValue c) 0 s"

definition parseInt10 :: "string \<Rightarrow> number" where
  "parseInt10 s =
     (let S = trimStart s;
          sign = (case S of [] \<Rightarrow> 1 | c # _ \<Rightarrow> if c = CHR ''-'' then - 1 else (1::int));
          S1 = (case S of
                  [] \<Rightarrow> S
                | c # r \<Rightarrow> if c = CHR ''+'' \<or> c = CHR ''-'' then r else S);
          Z = takeWhile isDigit S1
      in if Z = [] then NaN
         else toDouble (of_int (sign * decimalValue Z)))"

section \<open>utils.ts: parseCSV\<close>

datatype jsval = Num number | Str string

datatype error = TypeError

text \<open>
  The body of \<^verbatim>\<open>headers.forEach\<close>: one assignment per header, in order, to
  the record that starts empty. It runs only when the row has as many fields as there
  are headers, so \<open>currentLine ! index\<close> is in range.
\<close>

definition buildRecord :: "string list \<Rightarrow> string list \<Rightarrow> jsval object" where
  "buildRecord headers currentLine =
     foldl (\<lambda>record (index, header).
              let v = currentLine ! index
              in if str_includes header ''Value''
                 then setProp record header (Num (parseInt10 v))
                 else setProp record header (Str v))
       [] (enumerate 0 headers)"

text \<open>The \<^verbatim>\<open>for\<close> loop over the lines, from index \<open>i\<close>, pushing onto \<open>records\<close>.\<close>

function parseRows ::
  "string list \<Rightarrow> string list \<Rightarrow> nat \<Rightarrow> jsval object list \<Rightarrow> jsval object list" where
  "parseRows lines headers i records =
     (if i < length lines then
        (let currentLine = str_split CHR '','' (lines ! i)
         in if length currentLine = length headers
            then parseRows lines headers (i + 1) (records @ [buildRecord headers currentLine])
            else parseRows lines headers (i + 1) records)
      else records)"
  by pat_completeness auto
termination
  by (relation "measure (\<lambda>(lines, headers, i, records). length lines - i)") auto

text \<open>
  \<^verbatim>\<open>lines[0].split(',')\<close> throws a TypeError if \<^verbatim>\<open>lines[0]\<close> is undefined;
  that is the only place where \<open>parseCSV\<close> can raise.
\<close>

definition parseCSV :: "string \<Rightarrow> error + jsval object list" where
  "parseCSV csv =
     (let lines = str_split CHR 0x0A (trim csv)
      in case lines of
           [] \<Rightarrow> Inl TypeError
         | line0 # _ \<Rightarrow> Inr (parseRows lines (str_split CHR '','' line0) 1 []))"

text \<open>What \<open>parseCSV\<close> sees of a text: its lines, the header names, the data rows.\<close>

definition csvLines :: "string \<Rightarrow> string list" where
  "csvLines csv = str_split CHR 0x0A (trim csv)"

definition csvHeaders :: "string \<Rightarrow> string list" where
  "csvHeaders csv = str_split CHR '','' (hd (csvLines csv))"

definition csvRows :: "string \<Rightarrow> string list list" where
  "csvRows csv = map (str_split CHR '','') (tl (csvLines csv))"

definition wellFormedRows :: "string \<Rightarrow> string list list" where
  "wellFormedRows csv = filter (\<lambda>fs. length fs = length (csvHeaders csv)) (csvRows csv)"

text \<open>The value that the loop body stores for a field \<open>v\<close> under a header.\<close>

definition typedField :: "string \<Rightarrow> string \<Rightarrow> jsval" where
  "typedField header v = (if str_includes header ''Value'' then Num (parseInt10 v) else Str v)"

section \<open>types.ts: AQIRecord\<close>

record AQIRecord =
  Country :: string
  City :: string
  AQI_Value :: number
  AQI_Category :: string
  CO_AQI_Value :: number
  CO_AQI_Category :: string
  Ozone_AQI_Value :: number
  Ozone_AQI_Category :: string
  NO2_AQI_Value :: number
  NO2_AQI_Category :: string
  PM25_AQI_Value :: number
  PM25_AQI_Category :: string

section \<open>utils.ts: getAverageAQI\<close>

definition getAverageAQI :: "AQIRecord list \<Rightarrow> number" where
  "getAverageAQI data =
     (if length data = 0 then IntNum 0
      else let total = foldl (\<lambda>acc curr. plus_num acc (AQI_Value curr)) (IntNum 0) data
           in Math_round (div_num total (IntNum (int (length data)))))"

section \<open>App.tsx: the derived data\<close>

record 'v entry =
  label :: string
  val :: 'v

record pollutantSums =
  Total_AQI :: number
  PM25 :: number
  CO :: number
  NO2 :: number
  Ozone :: number

definition pollutantAverages :: "AQIRecord list \<Rightarrow> number entry list" where
  "pollutantAverages countryData =
     (if length countryData = 0 then []
      else
        let totals = foldl (\<lambda>s d.
                \<lparr>Total_AQI = plus_num (Total_AQI s) (AQI_Value d),
                 PM25 = plus_num (PM25 s) (PM25_AQI_Value d),
                 CO = plus_num (CO s) (CO_AQI_Value d),
                 NO2 = plus_num (NO2 s) (NO2_AQI_Value d),
                 Ozone = plus_num (Ozone s) (Ozone_AQI_Value d)\<rparr>)
              \<lparr>Total_AQI = IntNum 0, PM25 = IntNum 0, CO = IntNum 0, NO2 = IntNum 0,
               Ozone = IntNum 0\<rparr> countryData;
            count = IntNum (int (length countryData))
        in [\<lparr>label = ''Total'', val = Math_round (div_num (Total_AQI totals) count)\<rparr>,
            \<lparr>label = ''PM2.5'', val = Math_round (div_num (PM25 totals) count)\<rparr>,
            \<lparr>label = ''CO'', val = Math_round (div_num (CO totals) count)\<rparr>,
            \<lparr>label = ''NO2'', val = Math_round (div_num (NO2 totals) count)\<rparr>,
            \<lparr>label = ''Ozone'', val = Math_round (div_num (Ozone totals) count)\<rparr>])"

text \<open>
  \<^verbatim>\<open>Array.prototype.sort\<close> with a comparator is stable: an element moves behind
  another one only when the comparator is positive on the pair, and a comparator result
  that is not a number counts as zero. For a comparator that is a consistent order this
  fixes the result, computed here by insertion from the right; for other comparators the
  order an engine produces is implementation-defined and the model is one of them.
\<close>

fun positive :: "number \<Rightarrow> bool" where
  "positive (Fin v) = (0 < v)"
| "positive PInf = True"
| "positive NInf = False"
| "positive NaN = False"

fun insort_cmp :: "('a \<Rightarrow> 'a \<Rightarrow> number) \<Rightarrow> 'a \<Rightarrow> 'a list \<Rightarrow> 'a list" where
  "insort_cmp cmp x [] = [x]"
| "insort_cmp cmp x (y # ys) =
     (if positive (cmp x y) then y # insort_cmp cmp x ys else x # y # ys)"

definition Array_sort :: "('a \<Rightarrow> 'a \<Rightarrow> number) \<Rightarrow> 'a list \<Rightarrow> 'a list" where
  "Array_sort cmp xs = foldr (insort_cmp cmp) xs []"

text \<open>
  \<open>pollutantType\<close> is a key of \<open>AQIRecord\<close> that the comparator reads as a number:
  one of the five numeric fields.
\<close>

datatype pollutantKey =
  Key_AQI_Value | Key_PM25_AQI_Value | Key_CO_AQI_Value | Key_NO2_AQI_Value
  | Key_Ozone_AQI_Value

fun field :: "AQIRecord \<Rightarrow> pollutantKey \<Rightarrow> number" where
  "field d Key_AQI_Value = AQI_Value d"
| "field d Key_PM25_AQI_Value = PM25_AQI_Value d"
| "field d Key_CO_AQI_Value = CO_AQI_Value d"
| "field d Key_NO2_AQI_Value = NO2_AQI_Value d"
| "field d Key_Ozone_AQI_Value = Ozone_AQI_Value d"

definition topCities :: "AQIRecord list \<Rightarrow> pollutantKey \<Rightarrow> AQIRecord list" where
  "topCities data pollutantType =
     take 10 (Array_sort (\<lambda>a b. minus_num (field b pollutantType) (field a pollutantType))
       data)"

text \<open>
  The counts of \<open>categoryDist\<close> live in an object literal. A count is the number the
  code stored, or, when the key was first read from \<^verbatim>\<open>Object.prototype\<close>, the text
  that \<^verbatim>\<open>+ 1\<close> appends to: \<open>Garbled\<close> stands for such a string, whose characters
  depend on the engine.
\<close>

datatype count = Count nat | Garbled

text \<open>\<^verbatim>\<open>counts[k] = (counts[k] || 0) + 1\<close>\<close>

definition increment :: "count object \<Rightarrow> string \<Rightarrow> count object" where
  "increment counts k =
     (case getProp counts k of
        Own c \<Rightarrow> (case c of
                    Count n \<Rightarrow> setProp counts k (Count ((if n = 0 then 0 else n) + 1))
                  | Garbled \<Rightarrow> setProp counts k Garbled)
      | Inherited \<Rightarrow> setProp counts k Garbled
      | Missing \<Rightarrow> setProp counts k (Count (0 + 1)))"

text \<open>
  \<^verbatim>\<open>Object.entries\<close> lists the keys that are array indices first, in ascending
  order, then the other keys in the order of their creation.
\<close>

definition isArrayIndex :: "string \<Rightarrow> bool" where
  "isArrayIndex s =
     (s \<noteq> [] \<and> list_all isDigit s \<and> (s = ''0'' \<or> take 1 s \<noteq> ''0'')
      \<and> decimalValue s < 4294967295)"

definition Object_entries :: "'v object \<Rightarrow> (string \<times> 'v) list" where
  "Object_entries obj =
     sort_key (\<lambda>(k, v). decimalValue k) (filter (\<lambda>(k, v). isArrayIndex k) obj)
     @ filter (\<lambda>(k, v). \<not> isArrayIndex k) obj"

record 'v slice = "'v entry" +
  color :: "string property"

definition categoryDist :: "AQIRecord list \<Rightarrow> count slice list" where
  "categoryDist countryData =
     (let counts = foldl (\<lambda>counts d. increment counts (AQI_Category d)) [] countryData
      in map (\<lambda>(l, v).
               \<lparr>label = l, val = v,
                color = (case getProp CategoryColors l of
                           Own c \<Rightarrow> Own (if c = [] then ''#ccc'' else c)
                         | Inherited \<Rightarrow> Inherited
                         | Missing \<Rightarrow> Own ''#ccc'')\<rparr>)
           (Object_entries counts))"

section \<open>Notions of the specification\<close>

text \<open>
  The text of a table: fields joined by commas into lines, lines joined by line feeds,
  the header first.
\<close>

fun join :: "char \<Rightarrow> string list \<Rightarrow> string" where
  "join sep [] = []"
| "join sep [x] = x"
| "join sep (x # y # ys) = x @ sep # join sep (y # ys)"

definition csvText :: "string list \<Rightarrow> string list list \<Rightarrow> string" where
  "csvText hs rows = join CHR 0x0A (map (join CHR '','') (hs # rows))"

text \<open>The arithmetic mean of a sequence of integers, as a rational.\<close>

definition arithmeticMean :: "int list \<Rightarrow> rat" where
  "arithmeticMean ks = of_int (sum_list ks) / of_nat (length ks)"

text \<open>A record of the dataset's shape, for the examples.\<close>

definition exampleRecord :: "string \<Rightarrow> int \<Rightarrow> string \<Rightarrow> AQIRecord" where
  "exampleRecord city aqi category =
     \<lparr>Country = ''X'', City = city, AQI_Value = IntNum aqi, AQI_Category = category,
      CO_AQI_Value = IntNum 1, CO_AQI_Category = ''Good'',
      Ozone_AQI_Value = IntNum 36, Ozone_AQI_Category = ''Good'',
      NO2_AQI_Value = IntNum 0, NO2_AQI_Category = ''Good'',
      PM25_AQI_Value = IntNum aqi, PM25_AQI_Category = category\<rparr>"

section \<open>Rounding to doubles\<close>

declare bitLength.simps [simp del]

lemma bitLength_bounds_int:
  "0 < n \<Longrightarrow> 0 < bitLength n \<and> 2 ^ nat (bitLength n - 1) \<le> n \<and> n < 2 ^ nat (bitLength n)"
proof (induction n rule: bitLength.induct)
  case (1 n)
  have b: "bitLength n = 1 + bitLength (n div 2)" using 1 by (subst bitLength.simps) simp
  show ?case
  proof (cases "n div 2 \<le> 0")
    case True
    with 1 have "n = 1" by linarith
    then show ?thesis by (simp add: bitLength.simps)
  next
    case False
    let ?L = "bitLength (n div 2)"
    from False 1 have IH: "0 < ?L" "2 ^ nat (?L - 1) \<le> n div 2" "n div 2 < 2 ^ nat ?L"
      by simp_all
    from IH(1) have e1: "nat ?L = Suc (nat (?L - 1))" and e2: "nat (1 + ?L) = Suc (nat ?L)"
      by linarith+
    have "(2::int) ^ nat ?L = 2 * 2 ^ nat (?L - 1)" by (subst e1) simp
    with IH(2) have lo: "2 ^ nat ?L \<le> n" by linarith
    have "(2::int) ^ nat (1 + ?L) = 2 * 2 ^ nat ?L" by (subst e2) simp
    with IH(3) have hi: "n < 2 ^ nat (1 + ?L)" by linarith
    from IH(1) lo hi show ?thesis by (simp add: b)
  qed
qed

lemma bitLength_bounds:
  assumes "0 < n"
  shows "2 powi (bitLength n - 1) \<le> (of_int n :: rat)" and "(of_int n :: rat) < 2 powi bitLength n"
proof -
  from bitLength_bounds_int [OF assms]
  have p: "0 < bitLength n" and lo: "2 ^ nat (bitLength n - 1) \<le> n" and hi: "n < 2 ^ nat (bitLength n)"
    by simp_all
  from lo have "(of_int (2 ^ nat (bitLength n - 1)) :: rat) \<le> of_int n" by (simp only: of_int_le_iff)
  with p show "2 powi (bitLength n - 1) \<le> (of_int n :: rat)"
    by (simp add: power_int_def)
  from hi have "(of_int n :: rat) < of_int (2 ^ nat (bitLength n))" by (simp only: of_int_less_iff)
  with p show "(of_int n :: rat) < 2 powi bitLength n"
    by (simp add: power_int_def)
qed

lemma binade_bounds:
  assumes "x \<noteq> 0"
  shows "2 powi binade x \<le> \<bar>x\<bar>" and "\<bar>x\<bar> < 2 powi (binade x + 1)"
proof -
  have "2 powi binade x \<le> \<bar>x\<bar> \<and> \<bar>x\<bar> < 2 powi (binade x + 1)"
  proof (cases "1 \<le> \<bar>x\<bar>")
    case True
    let ?n = "\<lfloor>\<bar>x\<bar>\<rfloor>"
    from True have n: "0 < ?n" by linarith
    have b: "binade x = bitLength ?n - 1" using True by (simp add: binade_def)
    have "2 powi (bitLength ?n - 1) \<le> (of_int ?n :: rat)" using n by (rule bitLength_bounds)
    also have "(of_int ?n :: rat) \<le> \<bar>x\<bar>" by linarith
    finally have lo: "2 powi binade x \<le> \<bar>x\<bar>" by (simp add: b)
    from bitLength_bounds_int [OF n] have "?n + 1 \<le> 2 ^ nat (bitLength ?n)" and p: "0 < bitLength ?n"
      by linarith+
    then have "(of_int (?n + 1) :: rat) \<le> of_int (2 ^ nat (bitLength ?n))" by (simp only: of_int_le_iff)
    with p have "(of_int ?n :: rat) + 1 \<le> 2 powi bitLength ?n" by (simp add: power_int_def)
    moreover have "\<bar>x\<bar> < of_int ?n + 1" by linarith
    ultimately have "\<bar>x\<bar> < 2 powi (binade x + 1)" by (simp add: b)
    with lo show ?thesis by simp
  next
    case False
    let ?y = "1 / \<bar>x\<bar>"
    let ?m = "\<lceil>?y\<rceil> - 1"
    from False assms have x: "0 < \<bar>x\<bar>" "\<bar>x\<bar> < 1" by simp_all
    then have y: "1 < ?y" by (simp add: field_simps)
    then have m: "0 < ?m" by linarith
    have b: "binade x = - bitLength ?m" using False by (simp add: binade_def)
    have pos: "(0::rat) < 2 powi k" for k by (simp add: power_int_def)
    have "of_int ?m < ?y" by linarith
    with bitLength_bounds(1) [OF m] have "2 powi (bitLength ?m - 1) < ?y" by linarith
    then have "\<bar>x\<bar> * 2 powi (bitLength ?m - 1) < 1" using x by (simp add: field_simps)
    then have "\<bar>x\<bar> < 1 / 2 powi (bitLength ?m - 1)" using pos [of "bitLength ?m - 1"] by (simp add: field_simps)
    also have "1 / 2 powi (bitLength ?m - 1) = (2::rat) powi (- bitLength ?m + 1)"
      by (simp add: power_int_minus_divide [symmetric])
    finally have hi: "\<bar>x\<bar> < 2 powi (binade x + 1)" by (simp add: b)
    from bitLength_bounds_int [OF m] have "?m + 1 \<le> 2 ^ nat (bitLength ?m)" and p: "0 < bitLength ?m"
      by linarith+
    then have "(of_int (?m + 1) :: rat) \<le> of_int (2 ^ nat (bitLength ?m))" by (simp only: of_int_le_iff)
    with p have "(of_int ?m :: rat) + 1 \<le> 2 powi bitLength ?m" by (simp add: power_int_def)
    moreover have "?y \<le> of_int ?m + 1" by linarith
    ultimately have "?y \<le> 2 powi bitLength ?m" by linarith
    then have "1 \<le> \<bar>x\<bar> * 2 powi bitLength ?m" using x by (simp add: field_simps)
    then have "1 / 2 powi bitLength ?m \<le> \<bar>x\<bar>" using pos [of "bitLength ?m"] by (simp add: field_simps)
    then have "2 powi binade x \<le> \<bar>x\<bar>" by (simp add: b power_int_minus_divide)
    with hi show ?thesis by simp
  qed
  then show "2 powi binade x \<le> \<bar>x\<bar>" and "\<bar>x\<bar> < 2 powi (binade x + 1)" by simp_all
qed


lemma roundHalfEven_int: "roundHalfEven (of_int z) = z"
  by (simp add: roundHalfEven_def)

lemma roundHalfEven_error: "\<bar>of_int (roundHalfEven y) - y\<bar> \<le> 1 / 2"
proof -
  have "of_int \<lfloor>y\<rfloor> \<le> y" "y < of_int \<lfloor>y\<rfloor> + 1" by linarith+
  then show ?thesis by (auto simp: roundHalfEven_def Let_def)
qed

lemma pow2_pos: "(0::rat) < 2 powi k"
  by (simp add: power_int_def)

lemma pow2_less_D: "(2::rat) powi a < 2 powi b \<Longrightarrow> a < b"
proof (rule ccontr)
  assume l: "(2::rat) powi a < 2 powi b" and "\<not> a < b"
  then have "b \<le> a" by simp
  then have "(2::rat) powi b \<le> 2 powi a" by (intro power_int_increasing) simp_all
  with l show False by simp
qed

lemma binade_less: "x \<noteq> 0 \<Longrightarrow> \<bar>x\<bar> < 2 powi m \<Longrightarrow> binade x < m"
proof -
  assume "x \<noteq> 0" and "\<bar>x\<bar> < 2 powi m"
  with binade_bounds(1) [of x] have "(2::rat) powi binade x < 2 powi m" by linarith
  then show ?thesis by (rule pow2_less_D)
qed

lemma binade_ge: "x \<noteq> 0 \<Longrightarrow> 2 powi m \<le> \<bar>x\<bar> \<Longrightarrow> m \<le> binade x"
proof -
  assume "x \<noteq> 0" and "2 powi m \<le> \<bar>x\<bar>"
  with binade_bounds(2) [of x] have "(2::rat) powi m < 2 powi (binade x + 1)" by linarith
  then have "m < binade x + 1" by (rule pow2_less_D)
  then show ?thesis by simp
qed

lemma toDouble_exact:
  assumes x: "x \<noteq> 0" and z: "x / 2 powi (max (binade x - 52) (- 1074)) = of_int z"
    and b: "\<bar>x\<bar> < 2 powi 1024"
  shows "toDouble x = Fin x"
proof -
  let ?c = "max (binade x - 52) (- 1074)"
  from z have "x = of_int z * 2 powi ?c"
    using pow2_pos [of ?c] by (simp add: field_simps)
  with z have "of_int (roundHalfEven (x / 2 powi ?c)) * 2 powi ?c = x"
    by (simp only: roundHalfEven_int)
  with x b show ?thesis by (simp add: toDouble_def Let_def)
qed

lemma toDouble_int:
  assumes "\<bar>z\<bar> < 2 ^ 53"
  shows "toDouble (of_int z) = IntNum z"
proof (cases "z = 0")
  case True
  then show ?thesis by (simp add: toDouble_def)
next
  case False
  let ?x = "of_int z :: rat"
  let ?c = "max (binade ?x - 52) (- 1074)"
  from False have x: "?x \<noteq> 0" by simp
  from assms have "\<bar>?x\<bar> < of_int (2 ^ 53)" by (simp only: of_int_less_iff flip: of_int_abs)
  then have lt: "\<bar>?x\<bar> < 2 powi 53" by simp
  with x have "binade ?x < 53" by (rule binade_less)
  then have c: "?c \<le> 0" by simp
  then have "(2::rat) powi ?c = 1 / 2 ^ nat (- ?c)"
    by (simp add: power_int_def field_simps)
  then have "?x / 2 powi ?c = of_int (z * 2 ^ nat (- ?c))" by simp
  moreover from lt have "\<bar>?x\<bar> < 2 powi 1024"
    by (rule less_le_trans) (simp add: power_increasing)
  ultimately show ?thesis using x by (intro toDouble_exact)
qed


lemma gap_upper:
  fixes s k :: int and n :: nat
  assumes "0 < n" and "of_int s / of_nat n < (of_int k :: rat) + 1 / 2"
  shows "of_int s / of_nat n + 1 / (2 * of_nat n) \<le> (of_int k :: rat) + 1 / 2"
proof -
  from assms have "(of_int (2 * s) :: rat) < of_int ((2 * k + 1) * int n)"
    by (simp add: field_simps)
  then have "2 * s < (2 * k + 1) * int n" by (simp only: of_int_less_iff)
  then have "2 * s + 1 \<le> (2 * k + 1) * int n" by simp
  then have "(of_int (2 * s + 1) :: rat) \<le> of_int ((2 * k + 1) * int n)"
    by (simp only: of_int_le_iff)
  with assms(1) show ?thesis by (simp add: field_simps)
qed

lemma gap_lower:
  fixes s k :: int and n :: nat
  assumes "0 < n" and "(of_int k :: rat) - 1 / 2 \<le> of_int s / of_nat n"
  shows "of_int s / of_nat n = (of_int k :: rat) - 1 / 2
    \<or> (of_int k :: rat) - 1 / 2 \<le> of_int s / of_nat n - 1 / (2 * of_nat n)"
proof -
  from assms have "(of_int ((2 * k - 1) * int n) :: rat) \<le> of_int (2 * s)"
    by (simp add: field_simps)
  then have "(2 * k - 1) * int n \<le> 2 * s" by (simp only: of_int_le_iff)
  then consider "(2 * k - 1) * int n = 2 * s" | "(2 * k - 1) * int n + 1 \<le> 2 * s" by linarith
  then show ?thesis
  proof cases
    case 1
    then have "(of_int ((2 * k - 1) * int n) :: rat) = of_int (2 * s)" by (simp only:)
    with assms(1) show ?thesis by (simp add: field_simps)
  next
    case 2
    then have "(of_int ((2 * k - 1) * int n + 1) :: rat) \<le> of_int (2 * s)"
      by (simp only: of_int_le_iff)
    with assms(1) show ?thesis by (simp add: field_simps)
  qed
qed

lemma pow2_diff_52: "(2::rat) powi (b - 52) = 2 powi b * 2 powi (- 52)"
  using power_int_add [of "2::rat" b "- 52"] by simp

lemma quotient_rounding:
  fixes s :: int and n :: nat
  assumes n: "0 < n" "n < 2 ^ 32" and s: "\<bar>s\<bar> < 2 ^ 52" and s0: "s \<noteq> 0"
  shows "\<exists>v. toDouble (of_int s / of_nat n) = Fin v
           \<and> \<bar>v - of_int s / of_nat n\<bar> < 1 / (2 * of_nat n)
           \<and> (\<forall>k::int. of_int s / of_nat n = (of_int k :: rat) - 1 / 2 \<longrightarrow> v = of_int s / of_nat n)"
proof -
  define N :: rat where "N = of_nat n"
  define q :: rat where "q = of_int s / N"
  define c where "c = max (binade q - 52) (- 1074)"
  define P :: rat where "P = 2 powi c"
  define K :: rat where "K = 2 powi (- 52)"
  define y where "y = q / P"
  define v where "v = of_int (roundHalfEven y) * P"
  have "(of_nat n :: rat) < of_nat (2 ^ 32)" using n(2) by (simp only: of_nat_less_iff)
  then have N32: "N < 2 ^ 32" by (simp add: N_def)
  have N1: "1 \<le> N" using n(1) by (simp add: N_def)
  have P: "0 < P" by (simp add: P_def pow2_pos)
  have K: "0 < K" by (simp add: K_def pow2_pos)
  have K52: "2 ^ 52 * K = 1" by (simp add: K_def power_int_minus_divide)
  have q0: "q \<noteq> 0" using s0 N1 by (simp add: q_def)
  have aq: "\<bar>q\<bar> * N = of_int \<bar>s\<bar>" using N1 by (simp add: q_def abs_divide)
  have "(of_int \<bar>s\<bar> :: rat) < of_int (2 ^ 52)" using s by (simp only: of_int_less_iff)
  with aq have qN: "\<bar>q\<bar> * N < 2 ^ 52" by simp
  have "\<bar>q\<bar> * 1 \<le> \<bar>q\<bar> * N" using N1 by (intro mult_left_mono) simp_all
  with qN have "\<bar>q\<bar> < 2 ^ 52" by simp
  then have q52: "\<bar>q\<bar> < 2 powi 52" by simp
  with q0 have e: "binade q < 52" by (rule binade_less)
  from s0 have "1 \<le> \<bar>s\<bar>" by simp
  then have "(of_int 1 :: rat) \<le> of_int \<bar>s\<bar>" by (simp only: of_int_le_iff)
  with aq have one: "1 \<le> \<bar>q\<bar> * N" by simp
  have "\<bar>q\<bar> * N < \<bar>q\<bar> * 2 ^ 32" using q0 N32 by (intro mult_strict_left_mono) simp_all
  with one have "1 < \<bar>q\<bar> * 2 ^ 32" by simp
  then have "1 / 2 ^ 32 < \<bar>q\<bar>" by (simp add: field_simps)
  then have "2 powi (- 32) \<le> \<bar>q\<bar>" by (simp add: power_int_minus_divide)
  with q0 have "- 32 \<le> binade q" by (rule binade_ge)
  then have c: "c = binade q - 52" by (simp add: c_def)
  have "P = 2 powi binade q * K" by (simp add: P_def c K_def pow2_diff_52)
  also have "\<dots> \<le> \<bar>q\<bar> * K"
    using binade_bounds(1) [OF q0] K by (intro mult_right_mono) simp_all
  finally have PK: "P \<le> \<bar>q\<bar> * K" .
  have "N * P \<le> N * (\<bar>q\<bar> * K)" using PK N1 by (intro mult_left_mono) simp_all
  also have "\<dots> = (\<bar>q\<bar> * N) * K" by (simp add: ac_simps)
  also have "\<dots> < 2 ^ 52 * K" using qN K by (intro mult_strict_right_mono) simp_all
  finally have NP: "N * P < 1" by (simp only: K52)
  have "v - q = (of_int (roundHalfEven y) - y) * P"
    using P by (simp add: v_def y_def left_diff_distrib)
  then have "\<bar>v - q\<bar> = \<bar>of_int (roundHalfEven y) - y\<bar> * P"
    using P by (simp add: abs_mult)
  also have "\<dots> \<le> 1 / 2 * P"
    using P roundHalfEven_error [of y] by (intro mult_right_mono) simp_all
  finally have err: "\<bar>v - q\<bar> \<le> P / 2" by simp
  from NP N1 have "P < 1 / N" by (simp add: field_simps)
  then have "P / 2 < 1 / (2 * N)" by simp
  with err have close: "\<bar>v - q\<bar> < 1 / (2 * N)" by simp
  have "1 / N \<le> 1" using N1 by simp
  with \<open>P < 1 / N\<close> have "P < 1" by simp
  with err have "\<bar>v - q\<bar> < 1" by simp
  with \<open>\<bar>q\<bar> < 2 ^ 52\<close> have "\<bar>v\<bar> < 2 ^ 52 + 1" by simp
  also have "\<dots> < (2::rat) ^ 53" by simp
  also have "\<dots> \<le> (2::rat) ^ 1024" by (rule power_increasing) simp_all
  finally have "\<bar>v\<bar> < 2 powi 1024" by simp
  then have td: "toDouble q = Fin v"
    using q0 by (simp add: toDouble_def Let_def v_def y_def P_def c_def)
  have ex: "v = q" if h: "q = of_int k - 1 / 2" for k :: int
  proof -
    define m where "m = nat (- c) - 1"
    from e have m: "nat (- c) = Suc m" by (simp add: m_def c)
    from e have "c \<le> 0" by (simp add: c)
    then have "P = 1 / 2 ^ nat (- c)" by (simp add: P_def power_int_def field_simps)
    then have Pm: "P = 1 / (2 * 2 ^ m)" by (simp add: m)
    have "y = (of_int k - 1 / 2) * (2 * 2 ^ m)" by (simp add: y_def h Pm)
    also have "\<dots> = of_int ((2 * k - 1) * 2 ^ m)" by (simp add: algebra_simps)
    finally have "y = of_int ((2 * k - 1) * 2 ^ m)" .
    then have "of_int (roundHalfEven y) = y" by (simp only: roundHalfEven_int)
    then show "v = q" using P by (simp add: v_def y_def)
  qed
  from td close ex show ?thesis unfolding q_def N_def by blast
qed


lemma toDouble_quotient:
  fixes s :: int and n :: nat
  assumes n: "0 < n" "n < 2 ^ 32" and s: "\<bar>s\<bar> < 2 ^ 52"
  shows "\<exists>v. toDouble (of_int s / of_nat n) = Fin v
           \<and> \<lfloor>v + 1 / 2\<rfloor> = \<lfloor>of_int s / of_nat n + 1 / 2 :: rat\<rfloor>"
proof (cases "s = 0")
  case True
  then show ?thesis by (simp add: toDouble_def)
next
  case False
  define q :: rat where "q = of_int s / of_nat n"
  define k where "k = \<lfloor>q + 1 / 2\<rfloor>"
  from quotient_rounding [OF n s False] obtain v where td: "toDouble q = Fin v"
    and close: "\<bar>v - q\<bar> < 1 / (2 * of_nat n)"
    and ex: "\<And>k::int. q = of_int k - 1 / 2 \<Longrightarrow> v = q"
    unfolding q_def by blast
  have kq: "of_int k \<le> q + 1 / 2" "q + 1 / 2 < of_int k + 1" unfolding k_def by linarith+
  have "q + 1 / (2 * of_nat n) \<le> of_int k + 1 / 2"
    unfolding q_def by (rule gap_upper [OF n(1)]) (use kq(2) in \<open>simp add: q_def\<close>)
  with close have up: "v + 1 / 2 < of_int k + 1" by linarith
  have "q = of_int k - 1 / 2 \<or> of_int k - 1 / 2 \<le> q - 1 / (2 * of_nat n)"
    unfolding q_def by (rule gap_lower [OF n(1)]) (use kq(1) in \<open>simp add: q_def\<close>)
  then have lo: "of_int k \<le> v + 1 / 2"
  proof
    assume h: "q = of_int k - 1 / 2"
    then have "v = q" by (rule ex)
    with h show ?thesis by simp
  next
    assume "of_int k - 1 / 2 \<le> q - 1 / (2 * of_nat n)"
    with close show ?thesis by linarith
  qed
  from lo up have "\<lfloor>v + 1 / 2\<rfloor> = k" by (intro floor_unique) simp_all
  with td show ?thesis by (simp add: k_def q_def)
qed

text \<open>Computing the double of a given rational, from its binade and its neighbours.\<close>

lemma binade_eqI: "x \<noteq> 0 \<Longrightarrow> 2 powi e \<le> \<bar>x\<bar> \<Longrightarrow> \<bar>x\<bar> < 2 powi (e + 1) \<Longrightarrow> binade x = e"
  using binade_ge [of x e] binade_less [of x "e + 1"] by simp

lemma roundHalfEven_eqI:
  assumes "of_int m - 1 / 2 < y" and "y < of_int m + 1 / 2"
  shows "roundHalfEven y = m"
proof (cases "of_int m \<le> y")
  case True
  with assms have "\<lfloor>y\<rfloor> = m" by (intro floor_unique) simp_all
  with assms show ?thesis by (simp add: roundHalfEven_def)
next
  case False
  with assms have "\<lfloor>y\<rfloor> = m - 1" by (intro floor_unique) simp_all
  with assms show ?thesis by (simp add: roundHalfEven_def)
qed

lemma toDouble_binade:
  assumes "x \<noteq> 0" and "2 powi e \<le> \<bar>x\<bar>" and "\<bar>x\<bar> < 2 powi (e + 1)" and "- 1022 \<le> e"
    and "roundHalfEven (x / 2 powi (e - 52)) = m"
    and "\<bar>(of_int m :: rat) * 2 powi (e - 52)\<bar> < 2 powi 1024"
  shows "toDouble x = Fin (of_int m * 2 powi (e - 52))"
proof -
  from assms(1-3) have b: "binade x = e" by (rule binade_eqI)
  with assms(4) have c: "max (binade x - 52) (- 1074) = e - 52" by simp
  from assms(1,5,6) show ?thesis by (simp add: toDouble_def Let_def c)
qed

lemma toDouble_eqI:
  assumes "x \<noteq> 0" and "2 powi e \<le> \<bar>x\<bar>" and "\<bar>x\<bar> < 2 powi (e + 1)" and "- 1022 \<le> e"
    and "of_int m - 1 / 2 < x / 2 powi (e - 52)" and "x / 2 powi (e - 52) < of_int m + 1 / 2"
    and "\<bar>(of_int m :: rat) * 2 powi (e - 52)\<bar> < 2 powi 1024"
  shows "toDouble x = Fin (of_int m * 2 powi (e - 52))"
  using assms(1-4) roundHalfEven_eqI [OF assms(5,6)] assms(7) by (rule toDouble_binade)

lemma toDouble_tie: "toDouble 9007199254740993 = Fin 9007199254740992"
proof -
  have "\<lfloor>(9007199254740993 / 2 :: rat)\<rfloor> = 4503599627370496" by (intro floor_unique) simp_all
  then have r: "roundHalfEven (9007199254740993 / 2) = 4503599627370496"
    by (simp add: roundHalfEven_def Let_def)
  have "toDouble 9007199254740993 = Fin (of_int 4503599627370496 * 2 powi (53 - 52))"
    by (rule toDouble_binade) (simp_all add: r)
  then show ?thesis by simp
qed

text \<open>
  The sign of a difference. A double is a multiple of \<open>2^-1074\<close>, so the difference
  of two different doubles is at least that far from zero and its rounding is not zero:
  the rounded difference of two doubles is positive exactly when the exact one is, which
  is all that the comparator of a sort passes on.
\<close>

lemma double_grid:
  assumes "toDouble x = Fin x"
  shows "\<exists>k. x = of_int k * 2 powi (- 1074)"
proof (cases "x = 0")
  case True
  then show ?thesis by (intro exI [of _ 0]) simp
next
  case False
  define c where "c = max (binade x - 52) (- 1074)"
  define m where "m = roundHalfEven (x / 2 powi c)"
  define U :: rat where "U = 2 powi (- 1074)"
  from assms False have x: "x = of_int m * 2 powi c"
    by (simp add: toDouble_def Let_def c_def [symmetric] m_def [symmetric] split: if_splits)
  have "0 \<le> c + 1074" by (simp add: c_def)
  then have "(2::rat) powi (c + 1074) = of_int (2 ^ nat (c + 1074))"
    by (simp add: power_int_def)
  moreover have "(2::rat) powi c = 2 powi (c + 1074) * U"
    unfolding U_def using power_int_add [of "2::rat" "c + 1074" "- 1074"] by simp
  ultimately have "x = of_int (m * 2 ^ nat (c + 1074)) * U"
    using x by simp
  then show ?thesis unfolding U_def by blast
qed

lemma toDouble_sign:
  assumes g: "x = of_int j * 2 powi (- 1074)"
  shows "positive (toDouble x) = (0 < x)"
proof -
  define c where "c = max (binade x - 52) (- 1074)"
  define y where "y = x / 2 powi c"
  define m where "m = roundHalfEven y"
  have P: "(0::rat) < 2 powi c" by (rule pow2_pos)
  have t: "x \<noteq> 0 \<Longrightarrow> toDouble x =
      (if 2 powi 1024 \<le> \<bar>(of_int m :: rat) * 2 powi c\<bar> then (if 0 < x then PInf else NInf)
       else Fin (of_int m * 2 powi c))"
    unfolding toDouble_def Let_def c_def [symmetric] y_def [symmetric] m_def [symmetric] by simp
  consider "x = 0" | "x < 0" | "0 < x" by linarith
  then show ?thesis
  proof cases
    case 1
    then show ?thesis by (simp add: toDouble_def)
  next
    case 2
    with P have "y < 0" by (simp add: y_def divide_neg_pos)
    then have "\<lfloor>y\<rfloor> < 0" by linarith
    then have "m \<le> 0" by (simp add: m_def roundHalfEven_def Let_def)
    then have "of_int m * 2 powi c \<le> (0::rat)"
      using P by (simp add: mult_nonpos_nonneg)
    with 2 show ?thesis by (simp add: t)
  next
    case 3
    have "1 \<le> y"
    proof (cases "binade x - 52 \<le> - 1074")
      case True
      then have "c = - 1074" by (simp add: c_def)
      then have "y = of_int j" using pow2_pos [of "- 1074"] by (simp add: y_def g)
      moreover from 3 g pow2_pos [of "- 1074"] have "0 < j" by (simp add: zero_less_mult_iff)
      ultimately show ?thesis by simp
    next
      case False
      then have c: "c = binade x - 52" by (simp add: c_def)
      from 3 have "2 powi binade x \<le> x" using binade_bounds(1) [of x] by simp
      moreover have "(2::rat) powi binade x = 2 powi 52 * 2 powi c"
        unfolding c using power_int_add [of "2::rat" 52 "binade x - 52"] by simp
      ultimately have "2 powi 52 * 2 powi c \<le> x" by simp
      then have "2 powi 52 \<le> y" using P by (simp add: y_def pos_le_divide_eq)
      then show ?thesis by simp
    qed
    then have "1 \<le> \<lfloor>y\<rfloor>" by linarith
    then have "1 \<le> m" by (simp add: m_def roundHalfEven_def Let_def)
    then have "(0::rat) < of_int m * 2 powi c" using P by simp
    with 3 show ?thesis by (simp add: t)
  qed
qed

lemma minus_num_sign:
  assumes "toDouble a = Fin a" and "toDouble b = Fin b"
  shows "positive (toDouble (a - b)) = positive (minus_num (Fin a) (Fin b))"
proof -
  from assms obtain ka kb where "a = of_int ka * 2 powi (- 1074)" "b = of_int kb * 2 powi (- 1074)"
    using double_grid by blast
  then have "a - b = of_int (ka - kb) * 2 powi (- 1074)"
    by (simp add: algebra_simps)
  then have "positive (toDouble (a - b)) = (0 < a - b)" by (rule toDouble_sign)
  then show ?thesis by simp
qed

lemma Math_round_int: "Math_round (IntNum z) = IntNum z"
proof -
  have "\<lfloor>(of_int z :: rat) + 1 / 2\<rfloor> = z" by (intro floor_unique) simp_all
  then show ?thesis by simp
qed

section \<open>Colour buckets\<close>

lemma CategoryColors_get:
  "getProp CategoryColors ''Good'' = Own ''#4ade80''"
  "getProp CategoryColors ''Moderate'' = Own ''#facc15''"
  "getProp CategoryColors ''Unhealthy for Sensitive Groups'' = Own ''#fb923c''"
  "getProp CategoryColors ''Unhealthy'' = Own ''#f87171''"
  "getProp CategoryColors ''Very Unhealthy'' = Own ''#a78bfa''"
  "getProp CategoryColors ''Hazardous'' = Own ''#881337''"
  by (simp_all add: getProp_def CategoryColors_def)

lemma getColorForAQI_int:
  "getColorForAQI (IntNum aqi) =
     (if aqi \<le> 50 then Own ''#4ade80''
      else if aqi \<le> 100 then Own ''#facc15''
      else if aqi \<le> 150 then Own ''#fb923c''
      else if aqi \<le> 200 then Own ''#f87171''
      else if aqi \<le> 300 then Own ''#a78bfa''
      else Own ''#881337'')"
  by (simp add: getColorForAQI_def CategoryColors_get)

lemma colorBucket_int:
  "colorBucket (IntNum aqi) =
     Some (if aqi \<le> 50 then 0 else if aqi \<le> 100 then 1 else if aqi \<le> 150 then 2
           else if aqi \<le> 200 then 3 else if aqi \<le> 300 then 4 else 5)"
  by (simp add: colorBucket_def getColorForAQI_int CategoryColors_def)

lemma healthBucket_int:
  "healthBucket (IntNum aqi) =
     Some (if aqi \<le> 50 then 0 else if aqi \<le> 100 then 1 else if aqi \<le> 150 then 2
           else if aqi \<le> 200 then 3 else if aqi \<le> 300 then 4 else 5)"
  by (simp add: healthBucket_def healthBuckets_def getHealthImplications_def)

lemma healthBuckets_distinct: "distinct healthBuckets"
  by (simp add: healthBuckets_def getHealthImplications_def)

lemma colors_distinct: "distinct (map snd CategoryColors) \<and> length CategoryColors = 6"
  by (simp add: CategoryColors_def)

text \<open>
  C1. For every integer \<open>aqi\<close>, \<open>getColorForAQI\<close> gives the colour of the first bucket
  whose inclusive upper bound is at least \<open>aqi\<close>: up to 50 the colour of Good, up to 100
  of Moderate, up to 150 of Unhealthy for Sensitive Groups, up to 200 of Unhealthy, up to
  300 of Very Unhealthy, above 300 of Hazardous. So 50 is Good, 51 Moderate, 500 Hazardous.
\<close>

theorem getColorForAQI_thresholds:
  "getColorForAQI (IntNum aqi) =
     (if aqi \<le> 50 then getProp CategoryColors ''Good''
      else if aqi \<le> 100 then getProp CategoryColors ''Moderate''
      else if aqi \<le> 150 then getProp CategoryColors ''Unhealthy for Sensitive Groups''
      else if aqi \<le> 200 then getProp CategoryColors ''Unhealthy''
      else if aqi \<le> 300 then getProp CategoryColors ''Very Unhealthy''
      else getProp CategoryColors ''Hazardous'')
   \<and> getColorForAQI (IntNum aqi) =
     (if aqi \<le> 50 then Own ''#4ade80''
      else if aqi \<le> 100 then Own ''#facc15''
      else if aqi \<le> 150 then Own ''#fb923c''
      else if aqi \<le> 200 then Own ''#f87171''
      else if aqi \<le> 300 then Own ''#a78bfa''
      else Own ''#881337'')
   \<and> getColorForAQI (IntNum 50) = getProp CategoryColors ''Good''
   \<and> getColorForAQI (IntNum 51) = getProp CategoryColors ''Moderate''
   \<and> getColorForAQI (IntNum 500) = getProp CategoryColors ''Hazardous''"
  by (simp add: getColorForAQI_def CategoryColors_get)

text \<open>
  C2. For every integer \<open>aqi\<close> from 0 to 500, the bucket of the colour that
  \<open>getColorForAQI\<close> returns and the bucket of the text that \<open>getHealthImplications\<close>
  returns have the same index, one of the six; the six colours differ from each other and
  so do the six texts, so the index names one bucket.
\<close>

theorem color_health_same_bucket:
  assumes "0 \<le> aqi" and "aqi \<le> 500"
  shows "colorBucket (IntNum aqi) = healthBucket (IntNum aqi)
         \<and> (\<exists>i. i < 6 \<and> colorBucket (IntNum aqi) = Some i)
         \<and> distinct (map snd CategoryColors) \<and> distinct healthBuckets"
  using healthBuckets_distinct colors_distinct
  by (simp add: colorBucket_int healthBucket_int)

theorem color_health_same_bucket_witness:
  "(0::int) \<le> 120 \<and> (120::int) \<le> 500 \<and> colorBucket (IntNum 120) = Some 2 \<and> healthBucket (IntNum 120) = Some 2"
  using color_health_same_bucket [of 120] colorBucket_int [of 120]
  by simp

text \<open>
  C10. \<open>getColorForAQI\<close> is defined on every integer, the negative ones included: the
  result is always one of the colours of \<open>CategoryColors\<close>, a table of six entries with
  six different colours, and every \<open>aqi\<close> below zero gets the colour of Good, the first
  comparison having no lower bound.
\<close>

theorem getColorForAQI_total:
  "(\<exists>c. c \<in> set (map snd CategoryColors) \<and> getColorForAQI (IntNum aqi) = Own c)
   \<and> distinct (map snd CategoryColors) \<and> length CategoryColors = 6
   \<and> (aqi < 0 \<longrightarrow> getColorForAQI (IntNum aqi) = getProp CategoryColors ''Good'')"
  by (simp add: getColorForAQI_int CategoryColors_get) (simp add: CategoryColors_def)

theorem getColorForAQI_total_witness:
  "(-7::int) < 0 \<and> getColorForAQI (IntNum (-7)) = Own ''#4ade80''"
  using getColorForAQI_total [of "-7"] by (simp add: CategoryColors_get)

section \<open>Lines, fields and records of parseCSV\<close>

declare parseRows.simps [simp del]

lemma str_split_nonempty: "str_split sep s \<noteq> []"
  by (induction s) (auto split: list.splits)

lemma str_split_no_sep: "sep \<notin> set x \<Longrightarrow> str_split sep x = [x]"
  by (induction x) auto

lemma str_split_append: "sep \<notin> set x \<Longrightarrow> str_split sep (x @ sep # r) = x # str_split sep r"
  by (induction x) auto

lemma str_split_join:
  "xs \<noteq> [] \<Longrightarrow> \<forall>x\<in>set xs. sep \<notin> set x \<Longrightarrow> str_split sep (join sep xs) = xs"
  by (induction sep xs rule: join.induct) (auto simp: str_split_no_sep str_split_append)

lemma set_join: "c \<in> set (join sep xs) \<Longrightarrow> c = sep \<or> (\<exists>x\<in>set xs. c \<in> set x)"
  by (induction sep xs rule: join.induct) auto

lemma trim_append_ws:
  assumes "t \<noteq> []" and "\<not> isWhiteSpace (hd t)" and "\<not> isWhiteSpace (last t)"
    and "list_all isWhiteSpace w"
  shows "trim (t @ w) = t"
proof -
  from assms(1,2) have s: "trimStart (t @ w) = t @ w"
    by (cases t) (simp_all add: trimStart_def)
  have "dropWhile isWhiteSpace (rev w @ rev t) = dropWhile isWhiteSpace (rev t)"
    using assms(4) by (intro dropWhile_append2) (simp add: list_all_iff)
  also have "\<dots> = rev t"
    using assms(1,3) by (cases "rev t") (auto simp: last_rev hd_rev)
  finally show ?thesis by (simp add: trim_def s trimEnd_def)
qed

lemma parseRows_eq:
  "parseRows lines headers i records =
     records @ map (buildRecord headers)
       (filter (\<lambda>fs. length fs = length headers) (map (str_split CHR '','') (drop i lines)))"
proof (induction lines headers i records rule: parseRows.induct)
  case (1 lines headers i records)
  show ?case
  proof (cases "i < length lines")
    case True
    then have d: "drop i lines = lines ! i # drop (Suc i) lines"
      by (simp add: Cons_nth_drop_Suc)
    show ?thesis
      using 1 True by (subst parseRows.simps) (simp add: Let_def d)
  next
    case False
    then show ?thesis by (subst parseRows.simps) simp
  qed
qed

lemma parseCSV_eq:
  "parseCSV csv = Inr (map (buildRecord (csvHeaders csv)) (wellFormedRows csv))"
proof -
  obtain l0 ls where l: "str_split CHR 0x0A (trim csv) = l0 # ls"
    using str_split_nonempty [of "CHR 0x0A" "trim csv"] by (cases "str_split CHR 0x0A (trim csv)") auto
  then show ?thesis
    by (simp add: parseCSV_def parseRows_eq csvHeaders_def csvRows_def csvLines_def wellFormedRows_def)
qed

lemma getProp_setProp_same: "k \<noteq> ''__proto__'' \<Longrightarrow> getProp (setProp obj k v) k = Own v"
  by (simp add: getProp_def setProp_def update_conv')

lemma getProp_setProp_other: "k' \<noteq> k \<Longrightarrow> getProp (setProp obj k v) k' = getProp obj k'"
  by (simp add: getProp_def setProp_def update_conv')

lemma buildRecord_snoc:
  "buildRecord (hs @ [h]) fs = setProp (buildRecord hs fs) h (typedField h (fs ! length hs))"
  by (simp add: buildRecord_def enumerate_append_eq typedField_def Let_def)

lemma buildRecord_get:
  "j < length hs \<Longrightarrow> hs ! j \<notin> set (drop (Suc j) hs) \<Longrightarrow> hs ! j \<noteq> ''__proto__'' \<Longrightarrow>
   getProp (buildRecord hs fs) (hs ! j) = Own (typedField (hs ! j) (fs ! j))"
proof (induction hs rule: rev_induct)
  case Nil
  then show ?case by simp
next
  case (snoc h hs)
  show ?case
  proof (cases "j = length hs")
    case True
    with snoc.prems show ?thesis
      by (simp add: buildRecord_snoc getProp_setProp_same)
  next
    case False
    with snoc.prems have j: "j < length hs" by simp
    with snoc.prems have "hs ! j \<noteq> h" and "hs ! j \<notin> set (drop (Suc j) hs)" and "hs ! j \<noteq> ''__proto__''"
      by (auto simp: nth_append)
    with snoc.IH j show ?thesis
      by (simp add: buildRecord_snoc getProp_setProp_other nth_append)
  qed
qed

lemma update_fresh: "k \<notin> fst ` set al \<Longrightarrow> AList.update k v al = al @ [(k, v)]"
  by (induction al) auto

lemma buildRecord_nth:
  "distinct hs \<Longrightarrow> ''__proto__'' \<notin> set hs \<Longrightarrow>
   buildRecord hs fs = map (\<lambda>i. (hs ! i, typedField (hs ! i) (fs ! i))) [0..<length hs]"
proof (induction hs rule: rev_induct)
  case Nil
  then show ?case by (simp add: buildRecord_def)
next
  case (snoc h hs)
  then have IH: "buildRecord hs fs = map (\<lambda>i. (hs ! i, typedField (hs ! i) (fs ! i))) [0..<length hs]"
    by simp
  have "map fst (buildRecord hs fs) = hs"
    by (simp add: IH o_def map_nth)
  then have keys: "fst ` set (buildRecord hs fs) = set hs"
    by (metis set_map)
  have m: "map (\<lambda>i. ((hs @ [h]) ! i, typedField ((hs @ [h]) ! i) (fs ! i))) [0..<length hs]
             = map (\<lambda>i. (hs ! i, typedField (hs ! i) (fs ! i))) [0..<length hs]"
    by (rule map_cong) (auto simp: nth_append)
  from snoc.prems have "h \<noteq> ''__proto__''" and "h \<notin> set hs"
    by auto
  with keys have "buildRecord (hs @ [h]) fs = buildRecord hs fs @ [(h, typedField h (fs ! length hs))]"
    by (simp add: buildRecord_snoc setProp_def update_fresh)
  then show ?case by (simp add: m IH)
qed

lemma buildRecord_zip:
  assumes "distinct hs" and "''__proto__'' \<notin> set hs" and "length fs = length hs"
  shows "buildRecord hs fs = map (\<lambda>(h, v). (h, typedField h v)) (zip hs fs)"
proof -
  have "map (\<lambda>i. (hs ! i, typedField (hs ! i) (fs ! i))) [0..<length hs]
          = map (\<lambda>(h, v). (h, typedField h v)) (zip hs fs)"
    using assms(3) by (intro nth_equalityI) simp_all
  with assms show ?thesis by (simp add: buildRecord_nth)
qed

section \<open>parseCSV on a table\<close>

lemma csvLines_csvText:
  assumes hs: "hs \<noteq> []"
    and len: "\<forall>r\<in>set rows. length r = length hs"
    and nosep: "\<forall>r\<in>set (hs # rows). \<forall>f\<in>set r. CHR '','' \<notin> set f \<and> CHR 0x0A \<notin> set f"
    and t: "csvText hs rows \<noteq> []" "\<not> isWhiteSpace (hd (csvText hs rows))"
      "\<not> isWhiteSpace (last (csvText hs rows))"
    and w: "list_all isWhiteSpace w"
  shows "csvLines (csvText hs rows @ w) = map (join CHR '','') (hs # rows)"
    and "csvHeaders (csvText hs rows @ w) = hs"
    and "csvRows (csvText hs rows @ w) = rows"
proof -
  have nl: "\<forall>l\<in>set (map (join CHR '','') (hs # rows)). CHR 0x0A \<notin> set l"
  proof
    fix l assume "l \<in> set (map (join CHR '','') (hs # rows))"
    then obtain r where r: "r \<in> set (hs # rows)" and l: "l = join CHR '','' r" by auto
    show "CHR 0x0A \<notin> set l"
    proof
      assume "CHR 0x0A \<in> set l"
      with l have "CHR 0x0A = CHR '','' \<or> (\<exists>f\<in>set r. CHR 0x0A \<in> set f)"
        using set_join by metis
      with nosep r show False by auto
    qed
  qed
  have "trim (csvText hs rows @ w) = csvText hs rows"
    using t w by (rule trim_append_ws)
  then show lines: "csvLines (csvText hs rows @ w) = map (join CHR '','') (hs # rows)"
    using nl by (simp add: csvLines_def csvText_def str_split_join)
  from hs nosep show "csvHeaders (csvText hs rows @ w) = hs"
    by (simp add: csvHeaders_def lines str_split_join)
  have "map (str_split CHR '','') (map (join CHR '','') rows) = rows"
  proof -
    have "\<forall>r\<in>set rows. str_split CHR '','' (join CHR '','' r) = r"
    proof
      fix r assume r: "r \<in> set rows"
      with len hs have "r \<noteq> []" by auto
      moreover from nosep r have "\<forall>f\<in>set r. CHR '','' \<notin> set f" by auto
      ultimately show "str_split CHR '','' (join CHR '','' r) = r" by (rule str_split_join)
    qed
    then show ?thesis by (simp add: map_idI)
  qed
  then show "csvRows (csvText hs rows @ w) = rows"
    by (simp add: csvRows_def lines)
qed

lemma distinct_nth_drop: "distinct hs \<Longrightarrow> j < length hs \<Longrightarrow> hs ! j \<notin> set (drop (Suc j) hs)"
  by (metis Cons_nth_drop_Suc distinct.simps(2) distinct_drop)

lemma decimalValue_snoc: "decimalValue (v @ [c]) = 10 * decimalValue v + digitValue c"
  by (simp add: decimalValue_def)

lemma decimalValue_nonneg: "list_all isDigit v \<Longrightarrow> 0 \<le> decimalValue v"
proof (induction v rule: rev_induct)
  case Nil
  then show ?case by (simp add: decimalValue_def)
next
  case (snoc c v)
  then have "0 \<le> decimalValue v" and "0 \<le> digitValue c"
    by (simp_all add: isDigit_def digitValue_def)
  then show ?case by (simp add: decimalValue_snoc)
qed

lemma parseInt10_digits:
  assumes v: "v \<noteq> []" and d: "list_all isDigit v" and b: "decimalValue v < 2 ^ 53"
  shows "parseInt10 v = IntNum (decimalValue v)"
proof -
  from v obtain c r where c: "v = c # r" by (cases v) auto
  with d have "isDigit c" by simp
  then have n: "\<not> isWhiteSpace c" "c \<noteq> CHR ''+''" "c \<noteq> CHR ''-''"
    by (auto simp: isDigit_def isWhiteSpace_def)
  have t: "takeWhile isDigit v = v" using d by (simp add: list_all_iff)
  from decimalValue_nonneg [OF d] b have "\<bar>decimalValue v\<bar> < 2 ^ 53" by simp
  then have "toDouble (of_int (decimalValue v)) = IntNum (decimalValue v)" by (rule toDouble_int)
  with n t c show ?thesis by (simp add: parseInt10_def trimStart_def Let_def)
qed

text \<open>
  C3, as amended. Take a table with at least one column, header names that differ from
  each other and none of them \<^verbatim>\<open>__proto__\<close>, \<open>N\<close> rows with as many fields as
  there are headers, and no comma or line feed inside a field. Let its text neither begin
  nor end with white space, and let any white space \<open>w\<close> (such as the final line feed)
  follow it. Then \<open>parseCSV\<close> returns \<open>N\<close> records, in the order of the rows;
  the record of a row has the header names as its keys, in order, the field of a header
  that contains \<^verbatim>\<open>Value\<close> is the result of \<open>parseInt10\<close> on the text of the
  column, and every other field is the text of the column. On a text of digits that
  denote an integer below \<open>2^53\<close>, \<open>parseInt10\<close> gives that integer.
\<close>

theorem parseCSV_well_formed:
  assumes hs: "hs \<noteq> []" and dist: "distinct hs" and proto: "''__proto__'' \<notin> set hs"
    and len: "\<forall>r\<in>set rows. length r = length hs"
    and nosep: "\<forall>r\<in>set (hs # rows). \<forall>f\<in>set r. CHR '','' \<notin> set f \<and> CHR 0x0A \<notin> set f"
    and t: "csvText hs rows \<noteq> []" "\<not> isWhiteSpace (hd (csvText hs rows))"
      "\<not> isWhiteSpace (last (csvText hs rows))"
    and w: "list_all isWhiteSpace w"
  shows "\<exists>recs. parseCSV (csvText hs rows @ w) = Inr recs
           \<and> length recs = length rows
           \<and> recs = map (\<lambda>r. map (\<lambda>(h, v). (h, typedField h v)) (zip hs r)) rows
           \<and> (\<forall>i<length rows. \<forall>j<length hs.
                getProp (recs ! i) (hs ! j) =
                  Own (if str_includes (hs ! j) ''Value'' then Num (parseInt10 (rows ! i ! j))
                       else Str (rows ! i ! j)))
           \<and> (\<forall>v. v \<noteq> [] \<and> list_all isDigit v \<and> decimalValue v < 2 ^ 53
                \<longrightarrow> parseInt10 v = IntNum (decimalValue v))"
proof -
  let ?csv = "csvText hs rows @ w"
  have H: "csvHeaders ?csv = hs" and R: "csvRows ?csv = rows"
    using csvLines_csvText [OF hs len nosep t w] by simp_all
  have wf: "wellFormedRows ?csv = rows"
    using len by (simp add: wellFormedRows_def H R)
  have p: "parseCSV ?csv = Inr (map (buildRecord hs) rows)"
    by (simp add: parseCSV_eq H wf)
  have z: "map (buildRecord hs) rows = map (\<lambda>r. map (\<lambda>(h, v). (h, typedField h v)) (zip hs r)) rows"
    using len dist proto by (intro map_cong refl buildRecord_zip) auto
  have g: "\<forall>i<length rows. \<forall>j<length hs.
                getProp (map (buildRecord hs) rows ! i) (hs ! j) =
                  Own (if str_includes (hs ! j) ''Value'' then Num (parseInt10 (rows ! i ! j))
                       else Str (rows ! i ! j))"
  proof (intro allI impI)
    fix i j assume i: "i < length rows" and j: "j < length hs"
    from dist j have "hs ! j \<notin> set (drop (Suc j) hs)" by (rule distinct_nth_drop)
    moreover from proto j have "hs ! j \<noteq> ''__proto__''" by (metis nth_mem)
    ultimately have "getProp (buildRecord hs (rows ! i)) (hs ! j) = Own (typedField (hs ! j) (rows ! i ! j))"
      using j by (intro buildRecord_get)
    with i show "getProp (map (buildRecord hs) rows ! i) (hs ! j) =
                  Own (if str_includes (hs ! j) ''Value'' then Num (parseInt10 (rows ! i ! j))
                       else Str (rows ! i ! j))"
      by (simp add: typedField_def)
  qed
  show ?thesis
    using p z g parseInt10_digits by (intro exI [of _ "map (buildRecord hs) rows"]) simp
qed

text \<open>A table of two rows, with a final line feed.\<close>

theorem parseCSV_well_formed_witness:
  "parseCSV (csvText [''City'', ''AQI Value''] [[''Delhi'', ''150''], [''Oslo'', ''12'']] @ [CHR 0x0A])
     = Inr [[(''City'', Str ''Delhi''), (''AQI Value'', Num (IntNum 150))],
            [(''City'', Str ''Oslo''), (''AQI Value'', Num (IntNum 12))]]"
proof -
  have "\<exists>recs. parseCSV (csvText [''City'', ''AQI Value''] [[''Delhi'', ''150''], [''Oslo'', ''12'']] @ [CHR 0x0A]) = Inr recs
           \<and> length recs = length [[''Delhi'', ''150''], [''Oslo'', ''12'']]
           \<and> recs = map (\<lambda>r. map (\<lambda>(h, v). (h, typedField h v)) (zip [''City'', ''AQI Value''] r)) [[''Delhi'', ''150''], [''Oslo'', ''12'']]
           \<and> (\<forall>i<length [[''Delhi'', ''150''], [''Oslo'', ''12'']]. \<forall>j<length [''City'', ''AQI Value''].
                getProp (recs ! i) ([''City'', ''AQI Value''] ! j) =
                  Own (if str_includes ([''City'', ''AQI Value''] ! j) ''Value'' then Num (parseInt10 ([[''Delhi'', ''150''], [''Oslo'', ''12'']] ! i ! j))
                       else Str ([[''Delhi'', ''150''], [''Oslo'', ''12'']] ! i ! j)))
           \<and> (\<forall>v. v \<noteq> [] \<and> list_all isDigit v \<and> decimalValue v < 2 ^ 53
                \<longrightarrow> parseInt10 v = IntNum (decimalValue v))"
    by (rule parseCSV_well_formed) (simp_all add: csvText_def isWhiteSpace_def)
  moreover have "parseInt10 ''150'' = IntNum (decimalValue ''150'')"
    and "parseInt10 ''12'' = IntNum (decimalValue ''12'')"
    by (rule parseInt10_digits; simp add: isDigit_def decimalValue_def digitValue_def)+
  then have "map (\<lambda>r. map (\<lambda>(h, v). (h, typedField h v)) (zip [''City'', ''AQI Value''] r)) [[''Delhi'', ''150''], [''Oslo'', ''12'']]
      = [[(''City'', Str ''Delhi''), (''AQI Value'', Num (IntNum 150))],
            [(''City'', Str ''Oslo''), (''AQI Value'', Num (IntNum 12))]]"
    by (simp add: typedField_def decimalValue_def digitValue_def)
  ultimately show ?thesis by auto
qed

text \<open>
  Each condition on the table is needed. \<open>parseCSV\<close> trims the whole text first, so
  the space that ends the last field of the last row is lost: the text \<^verbatim>\<open>A,B\<close>,
  line feed, \<^verbatim>\<open>1,x\<close>, space gives the field \<^verbatim>\<open>x\<close>. A record is an object
  with the header names as keys, so of two columns named \<^verbatim>\<open>A\<close> the record keeps
  the second one, and the assignment to a key named \<^verbatim>\<open>__proto__\<close> stores nothing.
  The field of a \<^verbatim>\<open>Value\<close> column is a double: the digits 9007199254740993 denote
  \<open>2^53 + 1\<close>, which is not one, and the field is 9007199254740992.
\<close>

theorem parseCSV_table_counterexample:
  "parseCSV (csvText [''A'', ''B''] [[''1'', ''x '']])
     = Inr [[(''A'', Str ''1''), (''B'', Str ''x'')]]
   \<and> getProp (projr (parseCSV (csvText [''A'', ''B''] [[''1'', ''x '']])) ! 0) ''B''
       \<noteq> Own (Str ''x '')
   \<and> parseCSV (csvText [''A'', ''A''] [[''1'', ''2'']]) = Inr [[(''A'', Str ''2'')]]
   \<and> getProp (projr (parseCSV (csvText [''A'', ''A''] [[''1'', ''2'']])) ! 0) ''A''
       \<noteq> Own (Str ''1'')
   \<and> parseCSV (csvText [''__proto__'', ''B''] [[''1'', ''2'']]) = Inr [[(''B'', Str ''2'')]]
   \<and> getProp (projr (parseCSV (csvText [''__proto__'', ''B''] [[''1'', ''2'']])) ! 0)
         ''__proto__''
       \<noteq> Own (Str ''1'')
   \<and> parseCSV (csvText [''Value''] [[''9007199254740993'']])
       = Inr [[(''Value'', Num (IntNum 9007199254740992))]]
   \<and> getProp (projr (parseCSV (csvText [''Value''] [[''9007199254740993'']])) ! 0) ''Value''
       \<noteq> Own (Num (IntNum (decimalValue ''9007199254740993'')))"
proof -
  have p: "parseInt10 ''9007199254740993'' = IntNum 9007199254740992"
    by (simp add: parseInt10_def trimStart_def isWhiteSpace_def isDigit_def decimalValue_def
        digitValue_def Let_def toDouble_tie)
  have h: "csvHeaders (csvText [''Value''] [[''9007199254740993'']]) = [''Value'']"
    by code_simp
  have r: "wellFormedRows (csvText [''Value''] [[''9007199254740993'']]) = [[''9007199254740993'']]"
    by code_simp
  have d: "parseCSV (csvText [''Value''] [[''9007199254740993'']])
       = Inr [[(''Value'', Num (IntNum 9007199254740992))]]"
    by (simp add: parseCSV_eq h r buildRecord_zip typedField_def p)
  have v: "decimalValue ''9007199254740993'' = 9007199254740993"
    by (simp add: decimalValue_def digitValue_def)
  have a: "parseCSV (csvText [''A'', ''B''] [[''1'', ''x '']])
     = Inr [[(''A'', Str ''1''), (''B'', Str ''x'')]]"
    by code_simp
  have b: "parseCSV (csvText [''A'', ''A''] [[''1'', ''2'']]) = Inr [[(''A'', Str ''2'')]]"
    by code_simp
  have c: "parseCSV (csvText [''__proto__'', ''B''] [[''1'', ''2'']]) = Inr [[(''B'', Str ''2'')]]"
    by code_simp
  show ?thesis by (simp add: a b c d v getProp_def objectPrototypeKeys_def)
qed

text \<open>
  C4. Whatever the text, \<open>parseCSV\<close> raises no error and returns, in order, one record
  for each data row that has as many fields as the header, built from the header and that
  row alone; a row with fewer or more fields adds nothing. So a malformed row \<open>bad\<close>
  between the rows \<open>pre\<close> and \<open>post\<close> can be deleted from the text without changing
  the result (for texts that \<open>trim\<close> leaves as they are).
\<close>

theorem parseCSV_skips_malformed_rows:
  "parseCSV csv =
     Inr (map (buildRecord (csvHeaders csv))
            (filter (\<lambda>fs. length fs = length (csvHeaders csv)) (csvRows csv)))
   \<and> ((\<forall>l\<in>set (h # pre @ bad # post). CHR 0x0A \<notin> set l)
        \<and> length (str_split CHR '','' bad) \<noteq> length (str_split CHR '','' h)
        \<and> trim (join CHR 0x0A (h # pre @ bad # post)) = join CHR 0x0A (h # pre @ bad # post)
        \<and> trim (join CHR 0x0A (h # pre @ post)) = join CHR 0x0A (h # pre @ post)
      \<longrightarrow> parseCSV (join CHR 0x0A (h # pre @ bad # post)) = parseCSV (join CHR 0x0A (h # pre @ post))
          \<and> parseCSV (join CHR 0x0A (h # pre @ post)) =
              Inr (map (buildRecord (str_split CHR '','' h))
                    (filter (\<lambda>fs. length fs = length (str_split CHR '','' h))
                       (map (str_split CHR '','') (pre @ post)))))"
proof (intro conjI impI)
  show "parseCSV csv =
     Inr (map (buildRecord (csvHeaders csv))
            (filter (\<lambda>fs. length fs = length (csvHeaders csv)) (csvRows csv)))"
    by (simp add: parseCSV_eq wellFormedRows_def)
next
  assume a: "(\<forall>l\<in>set (h # pre @ bad # post). CHR 0x0A \<notin> set l)
        \<and> length (str_split CHR '','' bad) \<noteq> length (str_split CHR '','' h)
        \<and> trim (join CHR 0x0A (h # pre @ bad # post)) = join CHR 0x0A (h # pre @ bad # post)
        \<and> trim (join CHR 0x0A (h # pre @ post)) = join CHR 0x0A (h # pre @ post)"
  then have l1: "csvLines (join CHR 0x0A (h # pre @ bad # post)) = h # pre @ bad # post"
    by (simp add: csvLines_def str_split_join)
  from a have l2: "csvLines (join CHR 0x0A (h # pre @ post)) = h # pre @ post"
    by (simp add: csvLines_def str_split_join)
  from a show "parseCSV (join CHR 0x0A (h # pre @ bad # post)) = parseCSV (join CHR 0x0A (h # pre @ post))"
    by (simp add: parseCSV_eq wellFormedRows_def csvHeaders_def csvRows_def l1 l2)
  show "parseCSV (join CHR 0x0A (h # pre @ post)) =
              Inr (map (buildRecord (str_split CHR '','' h))
                    (filter (\<lambda>fs. length fs = length (str_split CHR '','' h))
                       (map (str_split CHR '','') (pre @ post))))"
    by (simp add: parseCSV_eq wellFormedRows_def csvHeaders_def csvRows_def l2)
qed

theorem parseCSV_skips_malformed_rows_witness:
  "parseCSV ''A,B\<newline>1,2\<newline>x\<newline>3,4,5\<newline>6,7''
     = Inr [[(''A'', Str ''1''), (''B'', Str ''2'')], [(''A'', Str ''6''), (''B'', Str ''7'')]]
   \<and> parseCSV ''A,B\<newline>1,2\<newline>3,4,5\<newline>6,7'' = parseCSV ''A,B\<newline>1,2\<newline>x\<newline>3,4,5\<newline>6,7''"
proof -
  have "parseCSV (join CHR 0x0A (''A,B'' # [''1,2''] @ ''x'' # [''3,4,5'', ''6,7'']))
          = parseCSV (join CHR 0x0A (''A,B'' # [''1,2''] @ [''3,4,5'', ''6,7'']))"
    using parseCSV_skips_malformed_rows [of "[]" "''A,B''" "[''1,2'']" "''x''" "[''3,4,5'', ''6,7'']",
        THEN conjunct2]
    by (simp add: trim_def trimStart_def trimEnd_def isWhiteSpace_def)
  moreover have "parseCSV ''A,B\<newline>1,2\<newline>x\<newline>3,4,5\<newline>6,7''
     = Inr [[(''A'', Str ''1''), (''B'', Str ''2'')], [(''A'', Str ''6''), (''B'', Str ''7'')]]"
    by code_simp
  ultimately show ?thesis by simp
qed

text \<open>
  C9. Let row \<open>i\<close> of the rows with the right number of fields have, in a column \<open>j\<close>
  whose header contains \<^verbatim>\<open>Value\<close> and whose header name no later column repeats, a
  field on which \<open>parseInt10\<close> gives not-a-number. Then \<open>parseCSV\<close> raises no error,
  the record of the row is produced, and its field of that name holds not-a-number.
\<close>

theorem parseCSV_not_a_number:
  assumes i: "i < length (wellFormedRows csv)"
    and j: "j < length (csvHeaders csv)"
    and v: "str_includes (csvHeaders csv ! j) ''Value''"
    and nan: "parseInt10 (wellFormedRows csv ! i ! j) = NaN"
    and last: "csvHeaders csv ! j \<notin> set (drop (Suc j) (csvHeaders csv))"
  shows "\<exists>recs. parseCSV csv = Inr recs \<and> length recs = length (wellFormedRows csv)
           \<and> getProp (recs ! i) (csvHeaders csv ! j) = Own (Num NaN)"
proof -
  have "\<not> str_includes ''__proto__'' ''Value''" by simp
  with v have "csvHeaders csv ! j \<noteq> ''__proto__''" by metis
  with j last have "getProp (buildRecord (csvHeaders csv) (wellFormedRows csv ! i)) (csvHeaders csv ! j)
      = Own (typedField (csvHeaders csv ! j) (wellFormedRows csv ! i ! j))"
    by (intro buildRecord_get)
  with v nan i show ?thesis by (simp add: parseCSV_eq typedField_def)
qed

theorem parseCSV_not_a_number_witness:
  "parseCSV ''City,AQI Value\<newline>Oslo,n/a\<newline>Rome,41''
     = Inr [[(''City'', Str ''Oslo''), (''AQI Value'', Num NaN)],
            [(''City'', Str ''Rome''), (''AQI Value'', Num (IntNum 41))]]
   \<and> getProp (projr (parseCSV ''City,AQI Value\<newline>Oslo,n/a\<newline>Rome,41'') ! 0) ''AQI Value'' = Own (Num NaN)"
proof -
  have e: "parseCSV ''City,AQI Value\<newline>Oslo,n/a\<newline>Rome,41''
     = Inr [[(''City'', Str ''Oslo''), (''AQI Value'', Num NaN)],
            [(''City'', Str ''Rome''), (''AQI Value'', Num (IntNum 41))]]"
    by code_simp
  have h: "csvHeaders ''City,AQI Value\<newline>Oslo,n/a\<newline>Rome,41'' = [''City'', ''AQI Value'']"
    by code_simp
  have r: "wellFormedRows ''City,AQI Value\<newline>Oslo,n/a\<newline>Rome,41'' = [[''Oslo'', ''n/a''], [''Rome'', ''41'']]"
    by code_simp
  have n: "parseInt10 ''n/a'' = NaN" by code_simp
  have "\<exists>recs. parseCSV ''City,AQI Value\<newline>Oslo,n/a\<newline>Rome,41'' = Inr recs
           \<and> length recs = length (wellFormedRows ''City,AQI Value\<newline>Oslo,n/a\<newline>Rome,41'')
           \<and> getProp (recs ! 0) (csvHeaders ''City,AQI Value\<newline>Oslo,n/a\<newline>Rome,41'' ! 1) = Own (Num NaN)"
    by (rule parseCSV_not_a_number) (simp_all add: h r n)
  then show ?thesis by (auto simp: e h)
qed

section \<open>Averages\<close>

lemma round_nearest:
  fixes m :: rat
  shows "\<bar>of_int \<lfloor>m + 1 / 2\<rfloor> - m\<bar> \<le> \<bar>of_int z - m\<bar>"
proof -
  let ?r = "\<lfloor>m + 1 / 2\<rfloor>"
  have lo: "of_int ?r \<le> m + 1 / 2" and hi: "m + 1 / 2 < of_int ?r + 1"
    by linarith+
  consider "z < ?r" | "z = ?r" | "?r < z" by linarith
  then show ?thesis
  proof cases
    case 1
    then have "z + 1 \<le> ?r" by simp
    then have "(of_int z :: rat) + 1 \<le> of_int ?r" by (metis of_int_1 of_int_add of_int_le_iff)
    with lo hi show ?thesis by linarith
  next
    case 2
    then show ?thesis by simp
  next
    case 3
    then have "?r + 1 \<le> z" by simp
    then have "(of_int ?r :: rat) + 1 \<le> of_int z" by (metis of_int_1 of_int_add of_int_le_iff)
    with lo hi show ?thesis by linarith
  qed
qed

lemma foldl_plus_num:
  "map f data = map IntNum ks \<Longrightarrow> \<bar>a\<bar> + sum_list (map abs ks) < 2 ^ 53 \<Longrightarrow>
   foldl (\<lambda>acc curr. plus_num acc (f curr)) (IntNum a) data = IntNum (a + sum_list ks)"
proof (induction data arbitrary: a ks)
  case Nil
  then show ?case by simp
next
  case (Cons d data)
  then obtain k ks' where ks: "ks = k # ks'" and d: "f d = IntNum k"
    and rest: "map f data = map IntNum ks'" by (cases ks) auto
  from Cons.prems(2) have b: "\<bar>a + k\<bar> + sum_list (map abs ks') < 2 ^ 53" by (simp add: ks)
  then have "\<bar>a + k\<bar> < 2 ^ 53"
    using sum_list_abs [of ks'] by linarith
  then have "toDouble (of_int (a + k)) = IntNum (a + k)" by (rule toDouble_int)
  then have "plus_num (IntNum a) (f d) = IntNum (a + k)" by (simp add: d)
  with Cons.IH [OF rest b] show ?case by (simp add: ks add.assoc)
qed

text \<open>
  The rounded mean of one field: \<^verbatim>\<open>Math.round(sum / length)\<close> after the sum of the
  field over the records.
\<close>

lemma rounded_mean:
  assumes ne: "data \<noteq> []" and len: "length data < 2 ^ 32"
    and ks: "map f data = map IntNum ks" and b: "sum_list (map abs ks) < 2 ^ 52"
  shows "Math_round (div_num (foldl (\<lambda>acc curr. plus_num acc (f curr)) (Fin 0) data)
            (Fin (of_nat (length data))))
         = IntNum \<lfloor>arithmeticMean ks + 1 / 2\<rfloor>"
proof -
  have l: "length ks = length data" using ks by (metis length_map)
  from ne have n: "0 < length data" by simp
  from b have "\<bar>0\<bar> + sum_list (map abs ks) < 2 ^ 53" by simp
  with ks have "foldl (\<lambda>acc curr. plus_num acc (f curr)) (IntNum 0) data = IntNum (0 + sum_list ks)"
    by (rule foldl_plus_num)
  then have f: "foldl (\<lambda>acc curr. plus_num acc (f curr)) (Fin 0) data = IntNum (sum_list ks)"
    by simp
  from b have "\<bar>sum_list ks\<bar> < 2 ^ 52" using sum_list_abs [of ks] by linarith
  from toDouble_quotient [OF n len this] obtain v
    where v: "toDouble (of_int (sum_list ks) / of_nat (length data)) = Fin v"
      and r: "\<lfloor>v + 1 / 2\<rfloor> = \<lfloor>of_int (sum_list ks) / of_nat (length data) + 1 / 2 :: rat\<rfloor>"
    by blast
  from ne have "div_num (IntNum (sum_list ks)) (Fin (of_nat (length data))) = Fin v"
    by (simp add: v)
  then have "Math_round (div_num (foldl (\<lambda>acc curr. plus_num acc (f curr)) (Fin 0) data)
            (Fin (of_nat (length data)))) = Math_round (Fin v)"
    by (simp only: f)
  also have "\<dots> = IntNum \<lfloor>arithmeticMean ks + 1 / 2\<rfloor>"
    by (simp add: r arithmeticMean_def l)
  finally show ?thesis .
qed

lemma getAverageAQI_ints:
  assumes "data \<noteq> []" and "length data < 2 ^ 32"
    and "map AQI_Value data = map IntNum ks" and "sum_list (map abs ks) < 2 ^ 52"
  shows "getAverageAQI data = IntNum \<lfloor>arithmeticMean ks + 1 / 2\<rfloor>"
  using assms(1) rounded_mean [OF assms] by (simp add: getAverageAQI_def)

text \<open>
  C5, as amended. \<open>getAverageAQI\<close> is 0 on the empty sequence. On a sequence of at least
  one and fewer than \<open>2^32\<close> records whose \<^verbatim>\<open>AQI Value\<close> fields are the integers
  \<open>ks\<close>, with absolute values that add up to less than \<open>2^52\<close>, it is the integer
  \<open>\<lfloor>mean + 1/2\<rfloor>\<close>, and no integer is nearer to the mean of \<open>ks\<close> than that one.
  Two records with the values 10 and 20 give 15.
\<close>

theorem getAverageAQI_mean:
  "getAverageAQI [] = IntNum 0
   \<and> (data \<noteq> [] \<and> length data < 2 ^ 32 \<and> map AQI_Value data = map IntNum ks
        \<and> sum_list (map abs ks) < 2 ^ 52 \<longrightarrow>
        getAverageAQI data = IntNum \<lfloor>arithmeticMean ks + 1 / 2\<rfloor>
        \<and> (\<forall>z. \<bar>of_int \<lfloor>arithmeticMean ks + 1 / 2\<rfloor> - arithmeticMean ks\<bar>
                  \<le> \<bar>of_int z - arithmeticMean ks\<bar>))
   \<and> getAverageAQI [d1\<lparr>AQI_Value := IntNum 10\<rparr>, d2\<lparr>AQI_Value := IntNum 20\<rparr>] = IntNum 15"
proof (intro conjI impI allI)
  show "getAverageAQI [] = IntNum 0" by (simp add: getAverageAQI_def)
next
  assume "data \<noteq> [] \<and> length data < 2 ^ 32 \<and> map AQI_Value data = map IntNum ks
        \<and> sum_list (map abs ks) < 2 ^ 52"
  then show "getAverageAQI data = IntNum \<lfloor>arithmeticMean ks + 1 / 2\<rfloor>"
    by (simp add: getAverageAQI_ints)
next
  fix z
  show "\<bar>of_int \<lfloor>arithmeticMean ks + 1 / 2\<rfloor> - arithmeticMean ks\<bar> \<le> \<bar>of_int z - arithmeticMean ks\<bar>"
    by (rule round_nearest)
next
  have "getAverageAQI [d1\<lparr>AQI_Value := IntNum 10\<rparr>, d2\<lparr>AQI_Value := IntNum 20\<rparr>]
          = IntNum \<lfloor>arithmeticMean [10, 20] + 1 / 2\<rfloor>"
    by (rule getAverageAQI_ints) simp_all
  also have "\<lfloor>arithmeticMean [10, 20] + 1 / 2\<rfloor> = 15"
    by (simp add: arithmeticMean_def floor_eq_iff)
  finally show "getAverageAQI [d1\<lparr>AQI_Value := IntNum 10\<rparr>, d2\<lparr>AQI_Value := IntNum 20\<rparr>] = IntNum 15"
    by simp
qed

theorem getAverageAQI_mean_witness:
  "getAverageAQI [exampleRecord ''a'' 30 ''Good'', exampleRecord ''b'' 170 ''Unhealthy'',
                  exampleRecord ''c'' 61 ''Moderate''] = IntNum 87"
proof -
  have "getAverageAQI [exampleRecord ''a'' 30 ''Good'', exampleRecord ''b'' 170 ''Unhealthy'',
                  exampleRecord ''c'' 61 ''Moderate'']
      = IntNum \<lfloor>arithmeticMean [30, 170, 61] + 1 / 2\<rfloor>"
    using getAverageAQI_mean [of "[exampleRecord ''a'' 30 ''Good'', exampleRecord ''b'' 170 ''Unhealthy'',
                  exampleRecord ''c'' 61 ''Moderate'']" "[30, 170, 61]"]
    by (simp add: exampleRecord_def)
  also have "\<lfloor>arithmeticMean [30, 170, 61] + 1 / 2\<rfloor> = 87"
    by (simp add: arithmeticMean_def floor_eq_iff)
  finally show ?thesis by simp
qed

text \<open>
  Without the bound the statement fails. The three values below are doubles and so is
  their sum, but the third of the sum is not: the quotient is rounded to the double that
  ends in one half, and \<^verbatim>\<open>Math.round\<close> takes that up. The mean is a third above
  2251799813685248, the result is 2251799813685249.
\<close>

theorem getAverageAQI_large_counterexample:
  "getAverageAQI [exampleRecord ''a'' 2251799813685248 ''Good'',
                  exampleRecord ''b'' 2251799813685248 ''Good'',
                  exampleRecord ''c'' 2251799813685249 ''Good''] = IntNum 2251799813685249
   \<and> \<bar>of_int 2251799813685248
        - arithmeticMean [2251799813685248, 2251799813685248, 2251799813685249]\<bar>
     < \<bar>of_int 2251799813685249
        - arithmeticMean [2251799813685248, 2251799813685248, 2251799813685249]\<bar>"
proof -
  define data where "data = [exampleRecord ''a'' 2251799813685248 ''Good'',
                  exampleRecord ''b'' 2251799813685248 ''Good'',
                  exampleRecord ''c'' 2251799813685249 ''Good'']"
  have "foldl (\<lambda>acc curr. plus_num acc (AQI_Value curr)) (IntNum 0) data
          = IntNum (0 + sum_list [2251799813685248, 2251799813685248, 2251799813685249])"
    by (rule foldl_plus_num) (simp_all add: data_def exampleRecord_def)
  then have f: "foldl (\<lambda>acc curr. plus_num acc (AQI_Value curr)) (Fin 0) data
          = Fin 6755399441055745"
    by simp
  have "toDouble (6755399441055745 / 3) = Fin (of_int 4503599627370497 * 2 powi (51 - 52))"
    by (rule toDouble_eqI) (simp_all add: power_int_minus_divide)
  then have q: "div_num (Fin 6755399441055745) (Fin 3) = Fin (4503599627370497 / 2)"
    by (simp add: power_int_minus_divide)
  have "\<lfloor>(4503599627370497 / 2 :: rat) + 1 / 2\<rfloor> = 2251799813685249"
    by (intro floor_unique) simp_all
  then have r: "Math_round (Fin (4503599627370497 / 2)) = Fin 2251799813685249" by simp
  have l: "length data = 3" by (simp add: data_def)
  have "getAverageAQI data = Fin 2251799813685249"
    by (simp add: getAverageAQI_def l f q r del: div_num.simps Math_round.simps)
  then show ?thesis by (simp add: data_def arithmeticMean_def)
qed

lemma foldl_pollutantSums:
  "foldl (\<lambda>s d.
            \<lparr>Total_AQI = plus_num (Total_AQI s) (AQI_Value d),
             PM25 = plus_num (PM25 s) (PM25_AQI_Value d),
             CO = plus_num (CO s) (CO_AQI_Value d),
             NO2 = plus_num (NO2 s) (NO2_AQI_Value d),
             Ozone = plus_num (Ozone s) (Ozone_AQI_Value d)\<rparr>)
      \<lparr>Total_AQI = a1, PM25 = a2, CO = a3, NO2 = a4, Ozone = a5\<rparr> data
    = \<lparr>Total_AQI = foldl (\<lambda>acc d. plus_num acc (AQI_Value d)) a1 data,
       PM25 = foldl (\<lambda>acc d. plus_num acc (PM25_AQI_Value d)) a2 data,
       CO = foldl (\<lambda>acc d. plus_num acc (CO_AQI_Value d)) a3 data,
       NO2 = foldl (\<lambda>acc d. plus_num acc (NO2_AQI_Value d)) a4 data,
       Ozone = foldl (\<lambda>acc d. plus_num acc (Ozone_AQI_Value d)) a5 data\<rparr>"
  by (induction data arbitrary: a1 a2 a3 a4 a5) simp_all

text \<open>
  C8, as amended. \<open>pollutantAverages\<close> is the empty sequence on the empty subset, with
  no division made. On a subset of at least one and fewer than \<open>2^32\<close> records whose
  five numeric fields are integers, with absolute values that add up to less than
  \<open>2^52\<close> in each field, it is the five pairs labelled Total, PM2.5, CO, NO2, Ozone,
  in this order, each with the mean of its field over the subset rounded to the nearest
  integer.
\<close>

theorem pollutantAverages_profile:
  "pollutantAverages [] = []
   \<and> (data \<noteq> [] \<and> length data < 2 ^ 32
        \<and> map AQI_Value data = map IntNum k1 \<and> sum_list (map abs k1) < 2 ^ 52
        \<and> map PM25_AQI_Value data = map IntNum k2 \<and> sum_list (map abs k2) < 2 ^ 52
        \<and> map CO_AQI_Value data = map IntNum k3 \<and> sum_list (map abs k3) < 2 ^ 52
        \<and> map NO2_AQI_Value data = map IntNum k4 \<and> sum_list (map abs k4) < 2 ^ 52
        \<and> map Ozone_AQI_Value data = map IntNum k5 \<and> sum_list (map abs k5) < 2 ^ 52
      \<longrightarrow> pollutantAverages data =
            [\<lparr>label = ''Total'', val = IntNum \<lfloor>arithmeticMean k1 + 1 / 2\<rfloor>\<rparr>,
             \<lparr>label = ''PM2.5'', val = IntNum \<lfloor>arithmeticMean k2 + 1 / 2\<rfloor>\<rparr>,
             \<lparr>label = ''CO'', val = IntNum \<lfloor>arithmeticMean k3 + 1 / 2\<rfloor>\<rparr>,
             \<lparr>label = ''NO2'', val = IntNum \<lfloor>arithmeticMean k4 + 1 / 2\<rfloor>\<rparr>,
             \<lparr>label = ''Ozone'', val = IntNum \<lfloor>arithmeticMean k5 + 1 / 2\<rfloor>\<rparr>]
          \<and> (\<forall>k z. \<bar>of_int \<lfloor>arithmeticMean k + 1 / 2\<rfloor> - arithmeticMean k\<bar>
                  \<le> \<bar>of_int z - arithmeticMean k\<bar>))"
proof (intro conjI impI allI)
  show "pollutantAverages [] = []" by (simp add: pollutantAverages_def)
next
  assume a: "data \<noteq> [] \<and> length data < 2 ^ 32
        \<and> map AQI_Value data = map IntNum k1 \<and> sum_list (map abs k1) < 2 ^ 52
        \<and> map PM25_AQI_Value data = map IntNum k2 \<and> sum_list (map abs k2) < 2 ^ 52
        \<and> map CO_AQI_Value data = map IntNum k3 \<and> sum_list (map abs k3) < 2 ^ 52
        \<and> map NO2_AQI_Value data = map IntNum k4 \<and> sum_list (map abs k4) < 2 ^ 52
        \<and> map Ozone_AQI_Value data = map IntNum k5 \<and> sum_list (map abs k5) < 2 ^ 52"
  then have ne: "data \<noteq> []" and len: "length data < 2 ^ 32" by simp_all
  from a have m1: "Math_round (div_num (foldl (\<lambda>acc d. plus_num acc (AQI_Value d)) (Fin 0) data)
            (Fin (of_nat (length data)))) = IntNum \<lfloor>arithmeticMean k1 + 1 / 2\<rfloor>"
    by (intro rounded_mean) simp_all
  from a have m2: "Math_round (div_num (foldl (\<lambda>acc d. plus_num acc (PM25_AQI_Value d)) (Fin 0) data)
            (Fin (of_nat (length data)))) = IntNum \<lfloor>arithmeticMean k2 + 1 / 2\<rfloor>"
    by (intro rounded_mean) simp_all
  from a have m3: "Math_round (div_num (foldl (\<lambda>acc d. plus_num acc (CO_AQI_Value d)) (Fin 0) data)
            (Fin (of_nat (length data)))) = IntNum \<lfloor>arithmeticMean k3 + 1 / 2\<rfloor>"
    by (intro rounded_mean) simp_all
  from a have m4: "Math_round (div_num (foldl (\<lambda>acc d. plus_num acc (NO2_AQI_Value d)) (Fin 0) data)
            (Fin (of_nat (length data)))) = IntNum \<lfloor>arithmeticMean k4 + 1 / 2\<rfloor>"
    by (intro rounded_mean) simp_all
  from a have m5: "Math_round (div_num (foldl (\<lambda>acc d. plus_num acc (Ozone_AQI_Value d)) (Fin 0) data)
            (Fin (of_nat (length data)))) = IntNum \<lfloor>arithmeticMean k5 + 1 / 2\<rfloor>"
    by (intro rounded_mean) simp_all
  from ne show "pollutantAverages data =
            [\<lparr>label = ''Total'', val = IntNum \<lfloor>arithmeticMean k1 + 1 / 2\<rfloor>\<rparr>,
             \<lparr>label = ''PM2.5'', val = IntNum \<lfloor>arithmeticMean k2 + 1 / 2\<rfloor>\<rparr>,
             \<lparr>label = ''CO'', val = IntNum \<lfloor>arithmeticMean k3 + 1 / 2\<rfloor>\<rparr>,
             \<lparr>label = ''NO2'', val = IntNum \<lfloor>arithmeticMean k4 + 1 / 2\<rfloor>\<rparr>,
             \<lparr>label = ''Ozone'', val = IntNum \<lfloor>arithmeticMean k5 + 1 / 2\<rfloor>\<rparr>]"
    unfolding pollutantAverages_def Let_def foldl_pollutantSums
    by (simp add: m1 m2 m3 m4 m5 del: Math_round.simps div_num.simps)
next
  fix k z
  show "\<bar>of_int \<lfloor>arithmeticMean k + 1 / 2\<rfloor> - arithmeticMean k\<bar> \<le> \<bar>of_int z - arithmeticMean k\<bar>"
    by (rule round_nearest)
qed

theorem pollutantAverages_profile_witness:
  "pollutantAverages [exampleRecord ''a'' 30 ''Good'', exampleRecord ''b'' 171 ''Unhealthy''] =
     [\<lparr>label = ''Total'', val = IntNum 101\<rparr>, \<lparr>label = ''PM2.5'', val = IntNum 101\<rparr>,
      \<lparr>label = ''CO'', val = IntNum 1\<rparr>, \<lparr>label = ''NO2'', val = IntNum 0\<rparr>,
      \<lparr>label = ''Ozone'', val = IntNum 36\<rparr>]"
proof -
  have "pollutantAverages [exampleRecord ''a'' 30 ''Good'', exampleRecord ''b'' 171 ''Unhealthy''] =
            [\<lparr>label = ''Total'', val = IntNum \<lfloor>arithmeticMean [30, 171] + 1 / 2\<rfloor>\<rparr>,
             \<lparr>label = ''PM2.5'', val = IntNum \<lfloor>arithmeticMean [30, 171] + 1 / 2\<rfloor>\<rparr>,
             \<lparr>label = ''CO'', val = IntNum \<lfloor>arithmeticMean [1, 1] + 1 / 2\<rfloor>\<rparr>,
             \<lparr>label = ''NO2'', val = IntNum \<lfloor>arithmeticMean [0, 0] + 1 / 2\<rfloor>\<rparr>,
             \<lparr>label = ''Ozone'', val = IntNum \<lfloor>arithmeticMean [36, 36] + 1 / 2\<rfloor>\<rparr>]"
    using pollutantAverages_profile [of "[exampleRecord ''a'' 30 ''Good'', exampleRecord ''b'' 171 ''Unhealthy'']"
        "[30, 171]" "[30, 171]" "[1, 1]" "[0, 0]" "[36, 36]"]
    by (simp add: exampleRecord_def)
  moreover have "\<lfloor>arithmeticMean [30, 171] + 1 / 2\<rfloor> = 101" "\<lfloor>arithmeticMean [1, 1] + 1 / 2\<rfloor> = 1"
    "\<lfloor>arithmeticMean [0, 0] + 1 / 2\<rfloor> = 0" "\<lfloor>arithmeticMean [36, 36] + 1 / 2\<rfloor> = 36"
    by (simp_all add: arithmeticMean_def floor_eq_iff)
  ultimately show ?thesis by simp
qed

text \<open>
  Without the bound the statement fails, as for the average of one field: the mean of
  the three values of the total AQI and of PM2.5 below is a third above
  2251799813685249, and the profile has 2251799813685250 for both.
\<close>

theorem pollutantAverages_large_counterexample:
  "pollutantAverages [exampleRecord ''a'' 2251799813685249 ''Good'',
                      exampleRecord ''b'' 2251799813685249 ''Good'',
                      exampleRecord ''c'' 2251799813685250 ''Good''] =
     [\<lparr>label = ''Total'', val = IntNum 2251799813685250\<rparr>,
      \<lparr>label = ''PM2.5'', val = IntNum 2251799813685250\<rparr>,
      \<lparr>label = ''CO'', val = IntNum 1\<rparr>, \<lparr>label = ''NO2'', val = IntNum 0\<rparr>,
      \<lparr>label = ''Ozone'', val = IntNum 36\<rparr>]
   \<and> \<bar>of_int 2251799813685249
        - arithmeticMean [2251799813685249, 2251799813685249, 2251799813685250]\<bar>
     < \<bar>of_int 2251799813685250
        - arithmeticMean [2251799813685249, 2251799813685249, 2251799813685250]\<bar>"
proof -
  define data where "data = [exampleRecord ''a'' 2251799813685249 ''Good'',
                      exampleRecord ''b'' 2251799813685249 ''Good'',
                      exampleRecord ''c'' 2251799813685250 ''Good'']"
  have l: "length data = 3" and ne: "data \<noteq> []" by (simp_all add: data_def)
  have "foldl (\<lambda>acc d. plus_num acc (AQI_Value d)) (IntNum 0) data
          = IntNum (0 + sum_list [2251799813685249, 2251799813685249, 2251799813685250])"
    by (rule foldl_plus_num) (simp_all add: data_def exampleRecord_def)
  then have f1: "foldl (\<lambda>acc d. plus_num acc (AQI_Value d)) (Fin 0) data = Fin 6755399441055748"
    by simp
  have "foldl (\<lambda>acc d. plus_num acc (PM25_AQI_Value d)) (IntNum 0) data
          = IntNum (0 + sum_list [2251799813685249, 2251799813685249, 2251799813685250])"
    by (rule foldl_plus_num) (simp_all add: data_def exampleRecord_def)
  then have f2: "foldl (\<lambda>acc d. plus_num acc (PM25_AQI_Value d)) (Fin 0) data = Fin 6755399441055748"
    by simp
  have "toDouble (6755399441055748 / 3) = Fin (of_int 4503599627370499 * 2 powi (51 - 52))"
    by (rule toDouble_eqI) (simp_all add: power_int_minus_divide)
  then have q: "div_num (Fin 6755399441055748) (Fin 3) = Fin (4503599627370499 / 2)"
    by (simp add: power_int_minus_divide)
  have "\<lfloor>(4503599627370499 / 2 :: rat) + 1 / 2\<rfloor> = 2251799813685250"
    by (intro floor_unique) simp_all
  then have r: "Math_round (Fin (4503599627370499 / 2)) = Fin 2251799813685250" by simp
  have "Math_round (div_num (foldl (\<lambda>acc d. plus_num acc (CO_AQI_Value d)) (Fin 0) data)
            (Fin (of_nat (length data)))) = IntNum \<lfloor>arithmeticMean [1, 1, 1] + 1 / 2\<rfloor>"
    by (rule rounded_mean) (simp_all add: data_def exampleRecord_def)
  moreover have "\<lfloor>arithmeticMean [1, 1, 1] + 1 / 2\<rfloor> = 1"
    by (simp add: arithmeticMean_def floor_eq_iff)
  ultimately have m3: "Math_round (div_num (foldl (\<lambda>acc d. plus_num acc (CO_AQI_Value d)) (Fin 0) data)
            (Fin 3)) = Fin 1"
    by (simp add: l del: div_num.simps Math_round.simps)
  have "Math_round (div_num (foldl (\<lambda>acc d. plus_num acc (NO2_AQI_Value d)) (Fin 0) data)
            (Fin (of_nat (length data)))) = IntNum \<lfloor>arithmeticMean [0, 0, 0] + 1 / 2\<rfloor>"
    by (rule rounded_mean) (simp_all add: data_def exampleRecord_def)
  moreover have "\<lfloor>arithmeticMean [0, 0, 0] + 1 / 2\<rfloor> = 0"
    by (simp add: arithmeticMean_def floor_eq_iff)
  ultimately have m4: "Math_round (div_num (foldl (\<lambda>acc d. plus_num acc (NO2_AQI_Value d)) (Fin 0) data)
            (Fin 3)) = Fin 0"
    by (simp add: l del: div_num.simps Math_round.simps)
  have "Math_round (div_num (foldl (\<lambda>acc d. plus_num acc (Ozone_AQI_Value d)) (Fin 0) data)
            (Fin (of_nat (length data)))) = IntNum \<lfloor>arithmeticMean [36, 36, 36] + 1 / 2\<rfloor>"
    by (rule rounded_mean) (simp_all add: data_def exampleRecord_def)
  moreover have "\<lfloor>arithmeticMean [36, 36, 36] + 1 / 2\<rfloor> = 36"
    by (simp add: arithmeticMean_def floor_eq_iff)
  ultimately have m5: "Math_round (div_num (foldl (\<lambda>acc d. plus_num acc (Ozone_AQI_Value d)) (Fin 0) data)
            (Fin 3)) = Fin 36"
    by (simp add: l del: div_num.simps Math_round.simps)
  have "pollutantAverages data =
     [\<lparr>label = ''Total'', val = Fin 2251799813685250\<rparr>,
      \<lparr>label = ''PM2.5'', val = Fin 2251799813685250\<rparr>,
      \<lparr>label = ''CO'', val = Fin 1\<rparr>, \<lparr>label = ''NO2'', val = Fin 0\<rparr>,
      \<lparr>label = ''Ozone'', val = Fin 36\<rparr>]"
    unfolding pollutantAverages_def Let_def foldl_pollutantSums
    by (simp add: ne l f1 f2 q r m3 m4 m5 del: div_num.simps Math_round.simps)
  then show ?thesis by (simp add: data_def arithmeticMean_def)
qed

section \<open>Ranking\<close>

lemma positive_minus_descKey:
  "a \<noteq> NaN \<Longrightarrow> b \<noteq> NaN \<Longrightarrow> positive (minus_num b a) = (descKey b < descKey a)"
  by (cases a; cases b) auto

lemma le_num_descKey:
  "a \<noteq> NaN \<Longrightarrow> b \<noteq> NaN \<Longrightarrow> le_num b a = (descKey a \<le> descKey b)"
  by (cases a; cases b) auto

lemma descKey_eq_iff:
  "a \<noteq> NaN \<Longrightarrow> b \<noteq> NaN \<Longrightarrow> (descKey a = descKey b) = (a = b)"
  by (cases a; cases b) auto

lemma insort_cmp_key:
  assumes "f x \<noteq> NaN" and "\<forall>y\<in>set ys. f y \<noteq> NaN"
  shows "insort_cmp (\<lambda>a b. minus_num (f b) (f a)) x ys = insort_key (\<lambda>d. descKey (f d)) x ys"
  using assms
proof (induction ys)
  case Nil
  then show ?case by simp
next
  case (Cons y ys)
  then have "positive (minus_num (f y) (f x)) = (descKey (f y) < descKey (f x))"
    by (intro positive_minus_descKey) simp_all
  with Cons show ?case by (auto simp: not_le)
qed

lemma Array_sort_key:
  assumes "\<forall>y\<in>set xs. f y \<noteq> NaN"
  shows "Array_sort (\<lambda>a b. minus_num (f b) (f a)) xs = sort_key (\<lambda>d. descKey (f d)) xs"
  using assms
proof (induction xs)
  case Nil
  then show ?case by (simp add: Array_sort_def)
next
  case (Cons x xs)
  then have IH: "Array_sort (\<lambda>a b. minus_num (f b) (f a)) xs = sort_key (\<lambda>d. descKey (f d)) xs"
    by simp
  have "insort_cmp (\<lambda>a b. minus_num (f b) (f a)) x (sort_key (\<lambda>d. descKey (f d)) xs)
          = insort_key (\<lambda>d. descKey (f d)) x (sort_key (\<lambda>d. descKey (f d)) xs)"
    using Cons.prems by (intro insort_cmp_key) simp_all
  with IH show ?case
    by (simp add: Array_sort_def sort_key_def)
qed

lemma filter_take_prefix: "filter P (take n ys) = take (length (filter P (take n ys))) (filter P ys)"
proof -
  have "filter P ys = filter P (take n ys) @ filter P (drop n ys)"
    by (metis append_take_drop_id filter_append)
  then show ?thesis by simp
qed

text \<open>
  C6. Let every record of \<open>data\<close> have a number (not the not-a-number value) in the
  selected field, one of total AQI, PM2.5, CO, NO2 and Ozone. Then \<open>topCities\<close> returns
  \<open>min 10 (length data)\<close> records, in descending order of the field; they are records
  of \<open>data\<close>, and every record left out has a value that is at most the value of
  every record returned; and for each value \<open>v\<close> the returned records with this value
  are the first ones of the records of \<open>data\<close> with this value, in the order of
  \<open>data\<close>.
\<close>

theorem topCities_ranking:
  assumes fin: "\<forall>d\<in>set data. field d p \<noteq> NaN"
  shows "length (topCities data p) = min 10 (length data)
    \<and> sorted_wrt (\<lambda>a b. le_num (field b p) (field a p)) (topCities data p)
    \<and> (\<exists>rest. mset (topCities data p @ rest) = mset data
          \<and> (\<forall>a\<in>set (topCities data p). \<forall>b\<in>set rest. le_num (field b p) (field a p)))
    \<and> (\<forall>v. \<exists>n. filter (\<lambda>d. field d p = v) (topCities data p)
                   = take n (filter (\<lambda>d. field d p = v) data))"
proof -
  let ?g = "\<lambda>d. descKey (field d p)"
  let ?ys = "sort_key ?g data"
  have top: "topCities data p = take 10 ?ys"
    using fin by (simp add: topCities_def Array_sort_key)
  have le: "le_num (field b p) (field a p) = (?g a \<le> ?g b)" if "a \<in> set data" "b \<in> set data" for a b
    using that fin by (intro le_num_descKey) simp_all
  have "sorted (map ?g ?ys)" by (rule sorted_sort_key)
  then have "sorted_wrt (\<lambda>a b. ?g a \<le> ?g b) ?ys" by (simp add: sorted_map)
  then have s: "sorted_wrt (\<lambda>a b. le_num (field b p) (field a p)) ?ys"
    by (rule sorted_wrt_mono_rel [rotated]) (simp add: le)
  have 1: "length (topCities data p) = min 10 (length data)"
    by (simp add: top min.commute)
  have 2: "sorted_wrt (\<lambda>a b. le_num (field b p) (field a p)) (topCities data p)"
    unfolding top using s by (rule sorted_wrt_take)
  have "sorted_wrt (\<lambda>a b. le_num (field b p) (field a p)) (take 10 ?ys @ drop 10 ?ys)"
    using s by simp
  then have "\<forall>a\<in>set (take 10 ?ys). \<forall>b\<in>set (drop 10 ?ys). le_num (field b p) (field a p)"
    unfolding sorted_wrt_append by blast
  moreover have "mset (take 10 ?ys @ drop 10 ?ys) = mset data" by simp
  ultimately have 3: "\<exists>rest. mset (topCities data p @ rest) = mset data
          \<and> (\<forall>a\<in>set (topCities data p). \<forall>b\<in>set rest. le_num (field b p) (field a p))"
    unfolding top by blast
  have 4: "\<exists>n. filter (\<lambda>d. field d p = v) (topCities data p) = take n (filter (\<lambda>d. field d p = v) data)" for v
  proof (cases "v = NaN")
    case True
    with fin have "filter (\<lambda>d. field d p = v) data = []" by (simp add: filter_empty_conv)
    moreover from True fin have "filter (\<lambda>d. field d p = v) (take 10 ?ys) = []"
      by (auto simp: filter_empty_conv dest: in_set_takeD)
    ultimately show ?thesis by (simp add: top)
  next
    case False
    have eq: "(field d p = v) = (?g d = descKey v)" if "d \<in> set data" for d
      using that fin False by (simp add: descKey_eq_iff)
    have "filter (\<lambda>d. field d p = v) ?ys = filter (\<lambda>d. ?g d = descKey v) ?ys"
      by (rule filter_cong) (simp_all add: eq)
    also have "\<dots> = filter (\<lambda>d. ?g d = descKey v) data" by (rule sort_key_stable)
    also have "\<dots> = filter (\<lambda>d. field d p = v) data"
      by (rule filter_cong) (simp_all add: eq)
    finally have st: "filter (\<lambda>d. field d p = v) ?ys = filter (\<lambda>d. field d p = v) data" .
    have "filter (\<lambda>d. field d p = v) (take 10 ?ys)
            = take (length (filter (\<lambda>d. field d p = v) (take 10 ?ys))) (filter (\<lambda>d. field d p = v) ?ys)"
      by (rule filter_take_prefix)
    then show ?thesis unfolding top st by blast
  qed
  from 1 2 3 4 show ?thesis by blast
qed

theorem topCities_ranking_witness:
  "map City (topCities (map (\<lambda>(c, v). exampleRecord c v ''Good'')
       [(''a'', 10), (''b'', 20), (''c'', 10), (''d'', 20), (''e'', 5), (''f'', 300), (''g'', 10),
        (''h'', 7), (''i'', 20), (''j'', 1), (''k'', 10), (''l'', 2)]) Key_AQI_Value)
     = [''f'', ''b'', ''d'', ''i'', ''a'', ''c'', ''g'', ''k'', ''h'', ''e'']
   \<and> length (topCities (map (\<lambda>(c, v). exampleRecord c v ''Good'')
       [(''a'', 10), (''b'', 20), (''c'', 10), (''d'', 20), (''e'', 5), (''f'', 300), (''g'', 10),
        (''h'', 7), (''i'', 20), (''j'', 1), (''k'', 10), (''l'', 2)]) Key_AQI_Value) = 10"
proof -
  have "length (topCities (map (\<lambda>(c, v). exampleRecord c v ''Good'')
       [(''a'', 10), (''b'', 20), (''c'', 10), (''d'', 20), (''e'', 5), (''f'', 300), (''g'', 10),
        (''h'', 7), (''i'', 20), (''j'', 1), (''k'', 10), (''l'', 2)]) Key_AQI_Value) = 10"
    using topCities_ranking [of "map (\<lambda>(c, v). exampleRecord c v ''Good'')
       [(''a'', 10), (''b'', 20), (''c'', 10), (''d'', 20), (''e'', 5), (''f'', 300), (''g'', 10),
        (''h'', 7), (''i'', 20), (''j'', 1), (''k'', 10), (''l'', 2)]" Key_AQI_Value]
    by (simp add: exampleRecord_def)
  moreover have "map City (topCities (map (\<lambda>(c, v). exampleRecord c v ''Good'')
       [(''a'', 10), (''b'', 20), (''c'', 10), (''d'', 20), (''e'', 5), (''f'', 300), (''g'', 10),
        (''h'', 7), (''i'', 20), (''j'', 1), (''k'', 10), (''l'', 2)]) Key_AQI_Value)
     = [''f'', ''b'', ''d'', ''i'', ''a'', ''c'', ''g'', ''k'', ''h'', ''e'']"
    by code_simp
  ultimately show ?thesis by simp
qed

section \<open>Category distribution\<close>

lemma increment_ok:
  assumes d: "distinct (map fst c)"
    and m: "\<forall>k'. map_of c k' = (if m k' = 0 then None else Some (Count (m k')))"
    and k: "k \<notin> set objectPrototypeKeys"
  shows "distinct (map fst (increment c k))
    \<and> (\<forall>k'. map_of (increment c k) k' =
          (if (m(k := Suc (m k))) k' = 0 then None else Some (Count ((m(k := Suc (m k))) k'))))"
proof -
  from k have p: "k \<noteq> ''__proto__''" by (auto simp: objectPrototypeKeys_def)
  show ?thesis
  proof (cases "m k = 0")
    case True
    with m have "map_of c k = None" by simp
    with k have "increment c k = AList.update k (Count 1) c"
      by (simp add: increment_def getProp_def setProp_def p)
    with d m True show ?thesis by (simp add: distinct_update update_conv')
  next
    case False
    with m have "map_of c k = Some (Count (m k))" by simp
    with False have "increment c k = AList.update k (Count (Suc (m k))) c"
      by (simp add: increment_def getProp_def setProp_def p)
    with d m show ?thesis by (simp add: distinct_update update_conv')
  qed
qed

lemma foldl_increment_ok:
  assumes "distinct (map fst c)"
    and "\<forall>k'. map_of c k' = (if m k' = 0 then None else Some (Count (m k')))"
    and "set ks \<inter> set objectPrototypeKeys = {}"
  shows "distinct (map fst (foldl increment c ks))
    \<and> (\<forall>k'. map_of (foldl increment c ks) k' =
          (if m k' + count_list ks k' = 0 then None else Some (Count (m k' + count_list ks k'))))"
  using assms
proof (induction ks arbitrary: c m)
  case Nil
  then show ?case by simp
next
  case (Cons k ks)
  from Cons.prems have k: "k \<notin> set objectPrototypeKeys" and ks: "set ks \<inter> set objectPrototypeKeys = {}"
    by auto
  from increment_ok [OF Cons.prems(1,2) k]
  have "distinct (map fst (foldl increment (increment c k) ks))
    \<and> (\<forall>k'. map_of (foldl increment (increment c k) ks) k' =
          (if (m(k := Suc (m k))) k' + count_list ks k' = 0 then None
           else Some (Count ((m(k := Suc (m k))) k' + count_list ks k'))))"
    by (intro Cons.IH ks) simp_all
  then show ?case by simp
qed

lemma mset_Object_entries: "mset (Object_entries obj) = mset obj"
  by (simp add: Object_entries_def case_prod_unfold)

lemma categoryDist_entries:
  "map (\<lambda>e. (label e, val e)) (categoryDist data)
     = Object_entries (foldl increment [] (map AQI_Category data))"
  by (simp add: categoryDist_def foldl_map case_prod_unfold comp_def)

text \<open>
  The six category labels of the data model, the keys of \<open>CategoryColors\<close>, are not
  names of properties that an object literal inherits.
\<close>

lemma category_labels_not_inherited:
  "set (map fst CategoryColors) \<inter> set objectPrototypeKeys = {}"
  by (simp add: CategoryColors_def objectPrototypeKeys_def)

text \<open>
  C7. For every subset of records, the category distribution has one entry for each
  distinct AQI Category text that occurs in the subset, holding the number of its
  occurrences; it has no other entry, so no count is zero; and the counts add up to the
  size of the subset. The counts live in an object literal, so this is stated for category
  texts that are not the name of a property that an object literal inherits: the six
  labels that the data model allows for the field are such texts.
\<close>

theorem categoryDist_counts:
  assumes "set (map AQI_Category data) \<inter> set objectPrototypeKeys = {}"
  shows "distinct (map label (categoryDist data))
    \<and> set (map label (categoryDist data)) = set (map AQI_Category data)
    \<and> (\<forall>e\<in>set (categoryDist data).
          val e = Count (count_list (map AQI_Category data) (label e))
          \<and> 0 < count_list (map AQI_Category data) (label e))
    \<and> sum_list (map (\<lambda>e. count_list (map AQI_Category data) (label e)) (categoryDist data))
         = length data"
proof -
  let ?cats = "map AQI_Category data"
  let ?c = "foldl increment [] ?cats"
  have "distinct (map fst ?c)
    \<and> (\<forall>k'. map_of ?c k' =
          (if (\<lambda>_. 0) k' + count_list ?cats k' = 0 then None
           else Some (Count ((\<lambda>_. 0) k' + count_list ?cats k'))))"
    using assms by (intro foldl_increment_ok) simp_all
  then have dc: "distinct (map fst ?c)"
    and mc: "\<And>k. map_of ?c k = (if count_list ?cats k = 0 then None else Some (Count (count_list ?cats k)))"
    by simp_all
  have ms: "mset (map (\<lambda>e. (label e, val e)) (categoryDist data)) = mset ?c"
    by (simp only: categoryDist_entries mset_Object_entries)
  then have st: "set (map (\<lambda>e. (label e, val e)) (categoryDist data)) = set ?c"
    by (rule mset_eq_setD)
  have "mset (map fst (map (\<lambda>e. (label e, val e)) (categoryDist data))) = mset (map fst ?c)"
    using ms by (metis mset_map)
  then have ml: "mset (map label (categoryDist data)) = mset (map fst ?c)"
    by (simp add: comp_def)
  then have 1: "distinct (map label (categoryDist data))"
    using dc by (metis mset_eq_imp_distinct_iff)
  have keys: "fst ` set ?c = set ?cats"
  proof (intro equalityI subsetI)
    fix k assume "k \<in> fst ` set ?c"
    then obtain v where "(k, v) \<in> set ?c" by auto
    with dc have "map_of ?c k = Some v" by simp
    then have "count_list ?cats k \<noteq> 0" by (simp add: mc split: if_splits)
    then show "k \<in> set ?cats" by (simp add: count_list_0_iff)
  next
    fix k assume "k \<in> set ?cats"
    then have "count_list ?cats k \<noteq> 0" by (simp add: count_list_0_iff)
    then have "map_of ?c k = Some (Count (count_list ?cats k))" by (simp add: mc)
    then show "k \<in> fst ` set ?c" by (metis map_of_SomeD fst_conv image_eqI)
  qed
  have 2: "set (map label (categoryDist data)) = set ?cats"
    using ml keys by (metis mset_eq_setD set_map)
  have 3: "\<forall>e\<in>set (categoryDist data).
          val e = Count (count_list ?cats (label e)) \<and> 0 < count_list ?cats (label e)"
  proof
    fix e assume "e \<in> set (categoryDist data)"
    then have "(label e, val e) \<in> set (map (\<lambda>e. (label e, val e)) (categoryDist data))" by auto
    with st have "(label e, val e) \<in> set ?c" by simp
    with dc have "map_of ?c (label e) = Some (val e)" by simp
    then show "val e = Count (count_list ?cats (label e)) \<and> 0 < count_list ?cats (label e)"
      by (simp add: mc split: if_splits)
  qed
  have "sum_list (map (\<lambda>e. count_list ?cats (label e)) (categoryDist data))
          = sum_list (map (count_list ?cats) (map label (categoryDist data)))"
    by (simp add: comp_def)
  also have "\<dots> = sum (count_list ?cats) (set (map label (categoryDist data)))"
    using 1 by (rule sum_list_distinct_conv_sum_set)
  also have "\<dots> = length ?cats"
    unfolding 2 by (rule sum_count_set) simp_all
  finally have 4: "sum_list (map (\<lambda>e. count_list ?cats (label e)) (categoryDist data)) = length data"
    by simp
  from 1 2 3 4 show ?thesis by blast
qed

theorem categoryDist_counts_witness:
  "set (map AQI_Category [exampleRecord ''a'' 30 ''Good'', exampleRecord ''b'' 170 ''Unhealthy'',
        exampleRecord ''c'' 40 ''Good'']) \<inter> set objectPrototypeKeys = {}
   \<and> map (\<lambda>e. (label e, val e))
        (categoryDist [exampleRecord ''a'' 30 ''Good'', exampleRecord ''b'' 170 ''Unhealthy'',
          exampleRecord ''c'' 40 ''Good''])
       = [(''Good'', Count 2), (''Unhealthy'', Count 1)]
   \<and> sum_list (map (\<lambda>e. count_list (map AQI_Category
          [exampleRecord ''a'' 30 ''Good'', exampleRecord ''b'' 170 ''Unhealthy'',
           exampleRecord ''c'' 40 ''Good'']) (label e))
        (categoryDist [exampleRecord ''a'' 30 ''Good'', exampleRecord ''b'' 170 ''Unhealthy'',
          exampleRecord ''c'' 40 ''Good''])) = 3"
proof -
  have h: "set (map AQI_Category [exampleRecord ''a'' 30 ''Good'', exampleRecord ''b'' 170 ''Unhealthy'',
        exampleRecord ''c'' 40 ''Good'']) \<inter> set objectPrototypeKeys = {}"
    by (simp add: exampleRecord_def objectPrototypeKeys_def)
  have "sum_list (map (\<lambda>e. count_list (map AQI_Category
          [exampleRecord ''a'' 30 ''Good'', exampleRecord ''b'' 170 ''Unhealthy'',
           exampleRecord ''c'' 40 ''Good'']) (label e))
        (categoryDist [exampleRecord ''a'' 30 ''Good'', exampleRecord ''b'' 170 ''Unhealthy'',
          exampleRecord ''c'' 40 ''Good''])) = 3"
    using categoryDist_counts [OF h] by simp
  moreover have "map (\<lambda>e. (label e, val e))
        (categoryDist [exampleRecord ''a'' 30 ''Good'', exampleRecord ''b'' 170 ''Unhealthy'',
          exampleRecord ''c'' 40 ''Good''])
       = [(''Good'', Count 2), (''Unhealthy'', Count 1)]"
    by code_simp
  ultimately show ?thesis using h by simp
qed

text \<open>
  Outside the data model: a category text that is the name of an inherited property is
  not counted. Reading \<^verbatim>\<open>counts["__proto__"]\<close> gives \<^verbatim>\<open>Object.prototype\<close>,
  and the assignment of the sum to that key is ignored, so two records, one of category
  \<^verbatim>\<open>__proto__\<close> and one of category Good, give the single entry Good, counted once.
\<close>

lemma categoryDist_inherited_key:
  "map (\<lambda>e. (label e, val e))
     (categoryDist [exampleRecord ''a'' 30 ''__proto__'', exampleRecord ''b'' 40 ''Good''])
     = [(''Good'', Count 1)]"
  by code_simp

end
